theory Spec2Isabelle
  imports Main "HOL-Library.Multiset"
begin

section \<open>JavaScript values and plain objects\<close>

text \<open>
  The renderer \<^verbatim>\<open>generated_apps/test_blueprint/app.js\<close> is JavaScript. Strings are byte
  lists (UTF-8); the Thai literals of the source are given by their bytes. Numbers are
  integers (identifiers and counters; no fractional value occurs in the modelled paths).
  A plain object is an association list in property order, without repeated keys.
\<close>

datatype jval =
    JUndef
  | JNull
  | JBool bool
  | JNum int
  | JStr string
  | JFile string
  | JNative string
  | JArr "jval list"
  | JObj "(string \<times> jval) list"

text \<open>
  \<open>JFile\<close> is a \<^verbatim>\<open>File\<close> picked in a file input. \<open>JNative k\<close> is what a lookup of \<open>k\<close>
  on a plain object yields when \<open>k\<close> is no own property but a member of
  \<^verbatim>\<open>Object.prototype\<close> (a built-in function, or the prototype object itself).
\<close>

type_synonym row = "(string \<times> jval) list"

definition object_prototype_names :: "string list" where
  "object_prototype_names =
     [''constructor'', ''__defineGetter__'', ''__defineSetter__'', ''hasOwnProperty'',
      ''__lookupGetter__'', ''__lookupSetter__'', ''isPrototypeOf'',
      ''propertyIsEnumerable'', ''toString'', ''valueOf'', ''__proto__'',
      ''toLocaleString'']"

datatype 'a lookup = Own 'a | Inherited | Absent

text \<open>\<^verbatim>\<open>obj[k]\<close> on a plain object: the own property, else the prototype's member.\<close>

definition get_prop :: "(string \<times> 'a) list \<Rightarrow> string \<Rightarrow> 'a lookup" where
  "get_prop obj k =
     (case map_of obj k of
        Some v \<Rightarrow> Own v
      | None \<Rightarrow> if k \<in> set object_prototype_names then Inherited else Absent)"

text \<open>\<^verbatim>\<open>obj[k] = v\<close>: an existing key keeps its place, a new key goes last.\<close>

fun set_prop :: "string \<Rightarrow> 'a \<Rightarrow> (string \<times> 'a) list \<Rightarrow> (string \<times> 'a) list" where
  "set_prop k v [] = [(k, v)]"
| "set_prop k v (p # ps) = (if fst p = k then (k, v) # ps else p # set_prop k v ps)"

text \<open>A value lookup in a row: \<^verbatim>\<open>x[field]\<close>.\<close>

definition row_get :: "row \<Rightarrow> string \<Rightarrow> jval" where
  "row_get x k =
     (case get_prop x k of Own v \<Rightarrow> v | Inherited \<Rightarrow> JNative k | Absent \<Rightarrow> JUndef)"

text \<open>Truthiness of an optional string (\<^verbatim>\<open>undefined\<close> and \<^verbatim>\<open>''\<close> are falsy), and \<^verbatim>\<open>a || b\<close>.\<close>

definition truthy :: "string option \<Rightarrow> bool" where
  "truthy s = (case s of None \<Rightarrow> False | Some v \<Rightarrow> v \<noteq> [])"

definition or_opt :: "string option \<Rightarrow> string option \<Rightarrow> string option" where
  "or_opt a b = (if truthy a then a else b)"

definition or_str :: "string option \<Rightarrow> string \<Rightarrow> string" where
  "or_str a d = (case a of None \<Rightarrow> d | Some v \<Rightarrow> if v = [] then d else v)"

definition nullish :: "jval \<Rightarrow> bool" where
  "nullish v = (v = JUndef \<or> v = JNull)"

subsection \<open>Strings: \<^verbatim>\<open>toLowerCase\<close>, \<^verbatim>\<open>String\<close>, \<^verbatim>\<open>JSON.stringify\<close>, \<^verbatim>\<open>escapeHtml\<close>\<close>

text \<open>
  \<^verbatim>\<open>String.prototype.toLowerCase\<close> is a built-in of the engine and follows the Unicode
  tables, so the functions that call it take it as their first argument \<open>lc\<close>. On a
  string of ASCII characters it is \<open>ascii_lower\<close>, which the examples use.
\<close>

definition lower_char :: "char \<Rightarrow> char" where
  "lower_char c =
     (let n = (of_char c :: nat) in if 65 \<le> n \<and> n \<le> 90 then char_of (n + 32) else c)"

definition ascii_lower :: "string \<Rightarrow> string" where
  "ascii_lower s = map lower_char s"

fun join :: "string \<Rightarrow> string list \<Rightarrow> string" where
  "join sep [] = []"
| "join sep [x] = x"
| "join sep (x # y # ys) = x @ sep @ join sep (y # ys)"

definition digit_char :: "nat \<Rightarrow> char" where
  "digit_char d = char_of (48 + d)"

fun show_nat :: "nat \<Rightarrow> string" where
  "show_nat n = (if n < 10 then [digit_char n] else show_nat (n div 10) @ [digit_char (n mod 10)])"

declare show_nat.simps [simp del]

definition show_int :: "int \<Rightarrow> string" where
  "show_int i = (if i < 0 then CHR ''-'' # show_nat (nat (- i)) else show_nat (nat i))"

text \<open>
  The text of an inherited member under \<^verbatim>\<open>String(...)\<close>: the prototype object prints as
  an object, a built-in function as its native source (the engine's wording).
\<close>

definition native_text :: "string \<Rightarrow> string" where
  "native_text k =
     (if k = ''__proto__'' then ''[object Object]''
      else ''function '' @ (if k = ''constructor'' then ''Object'' else k) @ ''() { [native code] }'')"

text \<open>\<^verbatim>\<open>String(v)\<close>; inside an array \<^verbatim>\<open>null\<close> and \<^verbatim>\<open>undefined\<close> print as the empty string.\<close>

fun to_String :: "jval \<Rightarrow> string"
  and elems_String :: "jval list \<Rightarrow> string list" where
  "to_String JUndef = ''undefined''"
| "to_String JNull = ''null''"
| "to_String (JBool b) = (if b then ''true'' else ''false'')"
| "to_String (JNum n) = show_int n"
| "to_String (JStr s) = s"
| "to_String (JFile f) = ''[object File]''"
| "to_String (JNative k) = native_text k"
| "to_String (JArr xs) = join '','' (elems_String xs)"
| "to_String (JObj kvs) = ''[object Object]''"
| "elems_String [] = []"
| "elems_String (v # vs) = (if nullish v then [] else to_String v) # elems_String vs"

definition hex_char :: "nat \<Rightarrow> char" where
  "hex_char d = (if d < 10 then char_of (48 + d) else char_of (87 + d))"

text \<open>The escapes of a JSON string literal.\<close>

definition json_char :: "char \<Rightarrow> string" where
  "json_char c =
     (let n = (of_char c :: nat) in
      if n = 34 then [CHR 0x5C, CHR 0x22]
      else if n = 92 then [CHR 0x5C, CHR 0x5C]
      else if n = 8 then [CHR 0x5C, CHR ''b'']
      else if n = 12 then [CHR 0x5C, CHR ''f'']
      else if n = 10 then [CHR 0x5C, CHR ''n'']
      else if n = 13 then [CHR 0x5C, CHR ''r'']
      else if n = 9 then [CHR 0x5C, CHR ''t'']
      else if n < 32 then [CHR 0x5C, CHR ''u'', CHR ''0'', CHR ''0'', hex_char (n div 16), hex_char (n mod 16)]
      else [c])"

definition json_quote :: "string \<Rightarrow> string" where
  "json_quote s = CHR 0x22 # concat (map json_char s) @ [CHR 0x22]"

text \<open>Values \<^verbatim>\<open>JSON.stringify\<close> leaves out of an object and turns into \<^verbatim>\<open>null\<close> in an array.\<close>

definition json_omitted :: "jval \<Rightarrow> bool" where
  "json_omitted v = (case v of JUndef \<Rightarrow> True | JNative k \<Rightarrow> k \<noteq> ''__proto__'' | _ \<Rightarrow> False)"

fun json_stringify :: "jval \<Rightarrow> string"
  and json_elems :: "jval list \<Rightarrow> string list"
  and json_fields :: "(string \<times> jval) list \<Rightarrow> string list" where
  "json_stringify JUndef = ''undefined''"
| "json_stringify JNull = ''null''"
| "json_stringify (JBool b) = (if b then ''true'' else ''false'')"
| "json_stringify (JNum n) = show_int n"
| "json_stringify (JStr s) = json_quote s"
| "json_stringify (JFile f) = ''{}''"
| "json_stringify (JNative k) = ''{}''"
| "json_stringify (JArr xs) = ''['' @ join '','' (json_elems xs) @ '']''"
| "json_stringify (JObj kvs) = ''{'' @ join '','' (json_fields kvs) @ ''}''"
| "json_elems [] = []"
| "json_elems (v # vs) = (if json_omitted v then ''null'' else json_stringify v) # json_elems vs"
| "json_fields [] = []"
| "json_fields (kv # kvs) =
     (if json_omitted (snd kv) then json_fields kvs
      else (json_quote (fst kv) @ '':'' @ json_stringify (snd kv)) # json_fields kvs)"

text \<open>
  What a value is after \<^verbatim>\<open>JSON.parse(JSON.stringify(v))\<close>: the round trip through
  \<^verbatim>\<open>localStorage\<close>.
\<close>

fun jsonify :: "jval \<Rightarrow> jval"
  and jsonify_elems :: "jval list \<Rightarrow> jval list"
  and jsonify_fields :: "(string \<times> jval) list \<Rightarrow> (string \<times> jval) list" where
  "jsonify JUndef = JUndef"
| "jsonify JNull = JNull"
| "jsonify (JBool b) = JBool b"
| "jsonify (JNum n) = JNum n"
| "jsonify (JStr s) = JStr s"
| "jsonify (JFile f) = JObj []"
| "jsonify (JNative k) = JObj []"
| "jsonify (JArr xs) = JArr (jsonify_elems xs)"
| "jsonify (JObj kvs) = JObj (jsonify_fields kvs)"
| "jsonify_elems [] = []"
| "jsonify_elems (v # vs) = (if json_omitted v then JNull else jsonify v) # jsonify_elems vs"
| "jsonify_fields [] = []"
| "jsonify_fields (kv # kvs) =
     (if json_omitted (snd kv) then jsonify_fields kvs
      else (fst kv, jsonify (snd kv)) # jsonify_fields kvs)"

text \<open>
  \<^verbatim>\<open>escapeHtml\<close>: the pattern \<^verbatim>\<open>/[&<>"]+/g\<close> matches maximal runs of special characters and
  the replacement looks the whole run up in a four-entry table, so a run of one
  character becomes its entity and a longer run becomes the text \<^verbatim>\<open>undefined\<close>.
\<close>

definition is_special :: "char \<Rightarrow> bool" where
  "is_special c = (c = CHR ''&'' \<or> c = CHR ''<'' \<or> c = CHR ''>'' \<or> c = CHR 0x22)"

fun escape_run :: "string \<Rightarrow> string" where
  "escape_run [] = []"
| "escape_run [c] =
     (if c = CHR ''&'' then ''&amp;'' else if c = CHR ''<'' then ''&lt;''
      else if c = CHR ''>'' then ''&gt;'' else ''&quot;'')"
| "escape_run (c # d # ds) = ''undefined''"

fun escape_from :: "string \<Rightarrow> string \<Rightarrow> string" where
  "escape_from run [] = escape_run run"
| "escape_from run (c # cs) =
     (if is_special c then escape_from (run @ [c]) cs
      else escape_run run @ c # escape_from [] cs)"

definition escapeHtml :: "string \<Rightarrow> string" where
  "escapeHtml s = escape_from [] s"

section \<open>Runtime state and its persistence\<close>

text \<open>
  The global \<^verbatim>\<open>state\<close> of the renderer. Users, posts, messages and notifications are
  read field by field and are typed; a collection is an array of arbitrary records.
\<close>

record user =
  u_username :: string
  u_name :: string

record post_comment =
  cm_user :: string
  cm_text :: string

record post =
  p_id :: int
  p_user :: string
  p_img :: string
  p_caption :: string
  p_likes :: int
  p_liked :: bool
  p_comments :: "post_comment list"
  p_ts :: int

record message =
  m_with :: string
  m_last :: string

record notification =
  n_text :: string

record app_state =
  currentUser :: user
  users :: "user list"
  posts :: "post list"
  notifications :: "notification list"
  messages :: "message list"
  collections :: "(string \<times> row list) list"

text \<open>
  The object parsed from \<^verbatim>\<open>localStorage['bp_state']\<close>, and \<^verbatim>\<open>window.__SAMPLE__\<close>: any
  field may be missing.
\<close>

record stored =
  s_currentUser :: "user option"
  s_users :: "user list option"
  s_posts :: "post list option"
  s_notifications :: "notification list option"
  s_messages :: "message list option"
  s_collections :: "(string \<times> row list) list option"

record sample =
  sample_users :: "user list option"
  sample_posts :: "post list option"
  sample_notifications :: "notification list option"
  sample_messages :: "message list option"
  sample_collections :: "(string \<times> row list) list option"

definition empty_stored :: stored where
  "empty_stored =
     \<lparr>s_currentUser = None, s_users = None, s_posts = None, s_notifications = None,
      s_messages = None, s_collections = None\<rparr>"

text \<open>\<^verbatim>\<open>JSON.parse(localStorage.getItem('bp_state')||'{}')\<close>\<close>

definition parse_storage :: "stored option \<Rightarrow> stored" where
  "parse_storage item = (case item of None \<Rightarrow> empty_stored | Some s \<Rightarrow> s)"

definition thai_you :: string where
  "thai_you =
     [CHR 0xE0, CHR 0xB8, CHR 0x84, CHR 0xE0, CHR 0xB8, CHR 0xB8, CHR 0xE0, CHR 0xB8,
      CHR 0x93]"

definition default_user :: user where
  "default_user = \<lparr>u_username = ''you'', u_name = thai_you\<rparr>"

text \<open>\<^verbatim>\<open>a || b || c\<close> on arrays and objects, which are truthy whenever present.\<close>

definition or_else :: "'a option \<Rightarrow> 'a option \<Rightarrow> 'a \<Rightarrow> 'a" where
  "or_else a b c = (case a of Some x \<Rightarrow> x | None \<Rightarrow> (case b of Some y \<Rightarrow> y | None \<Rightarrow> c))"

text \<open>Lines 5 to 11 of the source: the state after a page load.\<close>

definition init_state :: "sample \<Rightarrow> stored option \<Rightarrow> app_state" where
  "init_state smp item =
     (let s = parse_storage item;
          cu = (case s_currentUser s of
                  Some u \<Rightarrow> u
                | None \<Rightarrow> (case sample_users smp of
                              Some (u # us) \<Rightarrow> u
                            | _ \<Rightarrow> default_user))
      in \<lparr>currentUser = cu,
          users = or_else (s_users s) (sample_users smp) [cu],
          posts = or_else (s_posts s) (sample_posts smp) [],
          notifications = or_else (s_notifications s) (sample_notifications smp) [],
          messages = or_else (s_messages s) (sample_messages smp) [],
          collections = or_else (s_collections s) (sample_collections smp) []\<rparr>)"

text \<open>\<^verbatim>\<open>JSON.stringify(state)\<close>, as the object a later \<^verbatim>\<open>JSON.parse\<close> gives back.\<close>

definition snapshot :: "app_state \<Rightarrow> stored" where
  "snapshot st =
     \<lparr>s_currentUser = Some (currentUser st), s_users = Some (users st),
      s_posts = Some (posts st), s_notifications = Some (notifications st),
      s_messages = Some (messages st),
      s_collections = Some (map (\<lambda>kv. (fst kv, map jsonify_fields (snd kv))) (collections st))\<rparr>"

section \<open>Blueprint: routes and components\<close>

record column =
  col_header :: "string option"
  col_field :: "string option"

record form_field =
  f_label :: "string option"
  f_name :: "string option"
  f_id :: "string option"
  f_type :: "string option"

record submit_cfg =
  sub_collection :: "string option"
  sub_to :: "string option"

text \<open>
  A component as the renderer reads it: every field is optional. The \<^verbatim>\<open>type\<close> may hold
  any value (\<open>JUndef\<close> when it is missing); every other field that is present holds a
  value of the kind the renderer expects (a string for \<^verbatim>\<open>value\<close>, \<^verbatim>\<open>label\<close> and the like,
  an array for \<^verbatim>\<open>items\<close>, \<^verbatim>\<open>rows\<close>, \<^verbatim>\<open>columns\<close>, \<^verbatim>\<open>fields\<close>).
\<close>

record component =
  c_type :: jval
  c_value :: "string option"
  c_src :: "string option"
  c_to :: "string option"
  c_label :: "string option"
  c_action :: "string option"
  c_formId :: "string option"
  c_collection :: "string option"
  c_field :: "string option"
  c_redirect :: "string option"
  c_items :: "jval list option"
  c_columns :: "column list option"
  c_rows :: "row list option"
  c_fields :: "form_field list option"
  c_submit :: "submit_cfg option"

record route =
  r_path :: "string option"
  r_title :: "string option"
  r_components :: "component list option"

definition empty_component :: component where
  "empty_component =
     \<lparr>c_type = JUndef, c_value = None, c_src = None, c_to = None, c_label = None,
      c_action = None, c_formId = None, c_collection = None, c_field = None,
      c_redirect = None, c_items = None, c_columns = None, c_rows = None,
      c_fields = None, c_submit = None\<rparr>"

section \<open>The rendered page\<close>

text \<open>An input, textarea or select of the page, as \<^verbatim>\<open>handleAction\<close> reads it.\<close>

record input_el =
  el_name :: string
  el_id :: string
  el_placeholder :: string
  el_type :: string
  el_value :: string
  el_files :: "string list"

text \<open>
  An element holding controls: what \<^verbatim>\<open>querySelectorAll('input,textarea,select')\<close> finds
  in it, in document order.
\<close>

type_synonym form_el = "input_el list"

text \<open>The second argument of \<^verbatim>\<open>handleAction\<close>.\<close>

record action_cfg =
  a_to :: "string option"
  a_formId :: "string option"
  a_formEl :: "form_el option"
  a_collection :: "string option"
  a_redirect :: "string option"

datatype post_card = PostCard string string bool int string nat

text \<open>
  The element a component renders to. \<open>Card\<close> is \<^verbatim>\<open><div class="card">...</div>\<close> with its
  inner HTML as the renderer writes it; the browser parses that HTML, so markup in it
  becomes elements of the page.
\<close>

datatype node =
    Card string
  | ImageCard string
  | LinkNode string string
  | ButtonNode string string action_cfg
  | ListNode "string list"
  | TableNode "string list" "string list list"
  | GridNode "string list"
  | FormNode "(string \<times> string \<times> string) list" action_cfg
  | ComposerNode
  | InboxNode "string list"
  | NotificationsNode "string list"
  | ProfileNode string string "string list"
  | FeedNode "post_card list"
  | TodoNode "string list"

text \<open>
  What the parser makes of inner HTML. A source without \<^verbatim>\<open><\<close> is text only. A source
  whose first \<^verbatim>\<open><\<close> is followed by an ASCII letter opens a tag there, so the parsed content
  holds an element with the attributes written in the source, event handlers included
  (in every template of the renderer a \<^verbatim>\<open>>\<close> follows, which closes the tag).
\<close>

definition plain_text :: "string \<Rightarrow> bool" where
  "plain_text html = (CHR ''<'' \<notin> set html)"

definition is_ascii_letter :: "char \<Rightarrow> bool" where
  "is_ascii_letter c =
     (let n = (of_char c :: nat) in (65 \<le> n \<and> n \<le> 90) \<or> (97 \<le> n \<and> n \<le> 122))"

fun holds_element :: "string \<Rightarrow> bool" where
  "holds_element [] = False"
| "holds_element [c] = False"
| "holds_element (c # d # cs) =
     (if c = CHR ''<'' then is_ascii_letter d else holds_element (d # cs))"

datatype error = TypeError string

definition thai_link :: string where
  "thai_link =
     [CHR 0xE0, CHR 0xB8, CHR 0xA5, CHR 0xE0, CHR 0xB8, CHR 0xB4, CHR 0xE0, CHR 0xB8,
      CHR 0x87, CHR 0xE0, CHR 0xB8, CHR 0x81, CHR 0xE0, CHR 0xB9, CHR 0x8C]"

definition thai_button :: string where
  "thai_button =
     [CHR 0xE0, CHR 0xB8, CHR 0x9B, CHR 0xE0, CHR 0xB8, CHR 0xB8, CHR 0xE0, CHR 0xB9,
      CHR 0x88, CHR 0xE0, CHR 0xB8, CHR 0xA1]"

definition thai_not_found :: string where
  "thai_not_found =
     [CHR 0xE0, CHR 0xB9, CHR 0x84, CHR 0xE0, CHR 0xB8, CHR 0xA1, CHR 0xE0, CHR 0xB9,
      CHR 0x88, CHR 0xE0, CHR 0xB8, CHR 0x9E, CHR 0xE0, CHR 0xB8, CHR 0x9A, CHR 0xE0,
      CHR 0xB8, CHR 0xAB, CHR 0xE0, CHR 0xB8, CHR 0x99, CHR 0xE0, CHR 0xB9, CHR 0x89,
      CHR 0xE0, CHR 0xB8, CHR 0xB2]"

subsection \<open>Data binding\<close>

text \<open>
  \<^verbatim>\<open>state.collections[name] || []\<close> followed by an array method: an own collection, an
  empty array for an unknown name, and a \<^verbatim>\<open>TypeError\<close> when the name is a member of
  \<^verbatim>\<open>Object.prototype\<close> (the value read is then a truthy non-array).
\<close>

definition collection_or_empty :: "app_state \<Rightarrow> string \<Rightarrow> error + row list" where
  "collection_or_empty st nm =
     (case get_prop (collections st) nm of
        Own rs \<Rightarrow> Inr rs
      | Absent \<Rightarrow> Inr []
      | Inherited \<Rightarrow> Inl (TypeError nm))"

definition bindItems :: "app_state \<Rightarrow> component \<Rightarrow> error + jval list" where
  "bindItems st c =
     (case c_items c of
        Some its \<Rightarrow> Inr its
      | None \<Rightarrow>
          if truthy (c_collection c) then
            (case collection_or_empty st (the (c_collection c)) of
               Inl e \<Rightarrow> Inl e
             | Inr coll \<Rightarrow>
                 (let field = or_str (c_field c) ''name''
                  in Inr (map (\<lambda>x. if nullish (row_get x field)
                                      then JStr (json_stringify (JObj x))
                                      else row_get x field) coll)))
          else Inr [])"

text \<open>\<^verbatim>\<open>r[col.field]\<close>: a missing field name is the property key \<^verbatim>\<open>undefined\<close>.\<close>

definition column_key :: "column \<Rightarrow> string" where
  "column_key col = (case col_field col of None \<Rightarrow> ''undefined'' | Some f \<Rightarrow> f)"

definition table_cell :: "row \<Rightarrow> column \<Rightarrow> string" where
  "table_cell r col =
     escapeHtml (to_String (if nullish (row_get r (column_key col)) then JStr []
                            else row_get r (column_key col)))"

text \<open>\<^verbatim>\<open>col.header||col.field||''\<close>, escaped.\<close>

definition column_header :: "column \<Rightarrow> string" where
  "column_header col = escapeHtml (or_str (or_opt (col_header col) (col_field col)) [])"

definition renderTable :: "app_state \<Rightarrow> component \<Rightarrow> error + node" where
  "renderTable st c =
     (let cols = (case c_columns c of None \<Rightarrow> [] | Some cs \<Rightarrow> cs);
          rows = (case c_rows c of
                    Some rs \<Rightarrow> Inr rs
                  | None \<Rightarrow> if truthy (c_collection c)
                            then collection_or_empty st (the (c_collection c))
                            else Inr [])
      in case rows of
           Inl e \<Rightarrow> Inl e
         | Inr rs \<Rightarrow>
             Inr (TableNode (map column_header cols) (map (\<lambda>r. map (table_cell r) cols) rs)))"

subsection \<open>Forms\<close>

text \<open>The configuration a button hands to \<^verbatim>\<open>handleAction\<close> is the component itself.\<close>

definition button_cfg :: "component \<Rightarrow> action_cfg" where
  "button_cfg c =
     \<lparr>a_to = c_to c, a_formId = c_formId c, a_formEl = None,
      a_collection = c_collection c, a_redirect = c_redirect c\<rparr>"

text \<open>The configuration built by the \<^verbatim>\<open>onsubmit\<close> handler of a rendered form.\<close>

definition form_cfg :: "component \<Rightarrow> form_el \<Rightarrow> action_cfg" where
  "form_cfg c form =
     \<lparr>a_to = None, a_formId = None, a_formEl = Some form,
      a_collection =
        Some (or_str (or_opt (c_collection c)
                        (case c_submit c of None \<Rightarrow> None | Some s \<Rightarrow> sub_collection s)) ''forms''),
      a_redirect =
        or_opt (or_opt (c_redirect c) (case c_submit c of None \<Rightarrow> None | Some s \<Rightarrow> sub_to s)) None\<rparr>"

definition field_control :: "(string \<Rightarrow> string) \<Rightarrow> form_field \<Rightarrow> string" where
  "field_control lc f = lc (or_str (f_type f) ''text'')"

definition field_name :: "form_field \<Rightarrow> string" where
  "field_name f = or_str (or_opt (f_name f) (f_id f)) ''field''"

text \<open>The controls of a freshly rendered form, before the user has typed into them.\<close>

definition form_inputs :: "(string \<Rightarrow> string) \<Rightarrow> component \<Rightarrow> form_el" where
  "form_inputs lc c =
     map (\<lambda>f. \<lparr>el_name = field_name f, el_id = [], el_placeholder = [],
               el_type = field_control lc f, el_value = [], el_files = []\<rparr>)
       (case c_fields c of None \<Rightarrow> [] | Some fs \<Rightarrow> fs)"

definition renderForm :: "(string \<Rightarrow> string) \<Rightarrow> component \<Rightarrow> node" where
  "renderForm lc c =
     FormNode
       (map (\<lambda>f. (escapeHtml (or_str (or_opt (f_label f) (f_name f)) []), field_control lc f, field_name f))
          (case c_fields c of None \<Rightarrow> [] | Some fs \<Rightarrow> fs))
       (form_cfg c (form_inputs lc c))"

subsection \<open>Components\<close>

definition known_kinds :: "string list" where
  "known_kinds =
     [''text'', ''image'', ''link'', ''button'', ''list'', ''table'', ''grid'', ''form'',
      ''composer'', ''inbox'', ''notifications'', ''profile'', ''feed'', ''todo'']"

text \<open>Truthiness of a value.\<close>

definition js_truthy :: "jval \<Rightarrow> bool" where
  "js_truthy v =
     (case v of
        JUndef \<Rightarrow> False
      | JNull \<Rightarrow> False
      | JBool b \<Rightarrow> b
      | JNum n \<Rightarrow> n \<noteq> 0
      | JStr s \<Rightarrow> s \<noteq> []
      | _ \<Rightarrow> True)"

text \<open>
  \<^verbatim>\<open>(c.type||'text').toLowerCase()\<close>: a falsy type counts as \<^verbatim>\<open>text\<close>, a string is
  lower-cased, and any other value has no method \<^verbatim>\<open>toLowerCase\<close>, so the call throws.
\<close>

definition kind_of :: "(string \<Rightarrow> string) \<Rightarrow> component \<Rightarrow> error + string" where
  "kind_of lc c =
     (if \<not> js_truthy (c_type c) then Inr (lc ''text'')
      else (case c_type c of
              JStr s \<Rightarrow> Inr (lc s)
            | _ \<Rightarrow> Inl (TypeError ''toLowerCase'')))"

definition renderPost :: "post \<Rightarrow> post_card" where
  "renderPost p =
     PostCard (p_user p) (p_img p) (p_liked p) (p_likes p) (escapeHtml (p_caption p))
       (length (p_comments p))"

text \<open>
  \<^verbatim>\<open>renderComponent\<close>, with the state it leaves behind: \<^verbatim>\<open>renderFeed\<close> sorts
  \<^verbatim>\<open>state.posts\<close> in place (newest first, stable). \<open>lc\<close> is \<^verbatim>\<open>toLowerCase\<close> and \<open>tds\<close> the
  list read from \<^verbatim>\<open>localStorage['todos']\<close>.
\<close>

definition renderComponent ::
  "(string \<Rightarrow> string) \<Rightarrow> string list \<Rightarrow> app_state \<Rightarrow> component
     \<Rightarrow> (error \<times> app_state) + (node \<times> app_state)" where
  "renderComponent lc tds st c =
     (case kind_of lc c of
        Inl e \<Rightarrow> Inl (e, st)
      | Inr t \<Rightarrow>
      if t = ''text'' then Inr (Card (escapeHtml (or_str (c_value c) [])), st)
      else if t = ''image'' then Inr (ImageCard (or_str (c_src c) []), st)
      else if t = ''link'' then
        Inr (LinkNode (or_str (c_to c) ''#/'') (escapeHtml (or_str (c_label c) thai_link)), st)
      else if t = ''button'' then
        Inr (ButtonNode (escapeHtml (or_str (c_label c) thai_button))
               (or_str (c_action c) ''navigate'') (button_cfg c), st)
      else if t = ''list'' then
        (case bindItems st c of
           Inl e \<Rightarrow> Inl (e, st)
         | Inr its \<Rightarrow> Inr (ListNode (map (\<lambda>it. escapeHtml (to_String it)) its), st))
      else if t = ''table'' then
        (case renderTable st c of Inl e \<Rightarrow> Inl (e, st) | Inr n \<Rightarrow> Inr (n, st))
      else if t = ''grid'' then
        Inr (GridNode (filter (\<lambda>src. src \<noteq> []) (map p_img (posts st))), st)
      else if t = ''form'' then Inr (renderForm lc c, st)
      else if t = ''composer'' then Inr (ComposerNode, st)
      else if t = ''inbox'' then
        Inr (InboxNode (map (\<lambda>m. m_with m @ '': '' @ m_last m) (messages st)), st)
      else if t = ''notifications'' then
        Inr (NotificationsNode (map n_text (notifications st)), st)
      else if t = ''profile'' then
        Inr (ProfileNode (u_username (currentUser st)) (u_name (currentUser st))
               (map p_img (filter (\<lambda>p. p_user p = u_username (currentUser st)) (posts st))), st)
      else if t = ''feed'' then
        (let sorted = sort_key (\<lambda>p. - p_ts p) (posts st)
         in Inr (FeedNode (map renderPost sorted), st\<lparr>posts := sorted\<rparr>))
      else if t = ''todo'' then Inr (TodoNode tds, st)
      else Inr (Card (''['' @ t @ '']''), st))"

text \<open>
  The \<^verbatim>\<open>forEach\<close> of \<^verbatim>\<open>renderRoute\<close>: components render in order, each into its own
  child of the container; an exception ends the loop.
\<close>

fun render_all ::
  "(string \<Rightarrow> string) \<Rightarrow> string list \<Rightarrow> component list \<Rightarrow> app_state
     \<Rightarrow> (error \<times> app_state) + (node list \<times> app_state)" where
  "render_all lc tds [] st = Inr ([], st)"
| "render_all lc tds (c # cs) st =
     (case renderComponent lc tds st c of
        Inl e \<Rightarrow> Inl e
      | Inr (n, st1) \<Rightarrow>
          (case render_all lc tds cs st1 of
             Inl e \<Rightarrow> Inl e
           | Inr (ns, st2) \<Rightarrow> Inr (n # ns, st2)))"

text \<open>
  A route \<open>xs, c, ys\<close> in which \<open>c\<close> renders to \<open>n\<close> and the components around it
  render as they do by themselves.
\<close>

definition render_around ::
  "(string \<Rightarrow> string) \<Rightarrow> string list \<Rightarrow> component list \<Rightarrow> node \<Rightarrow> component list
     \<Rightarrow> app_state \<Rightarrow> (error \<times> app_state) + (node list \<times> app_state)" where
  "render_around lc tds xs n ys st =
     (case render_all lc tds xs st of
        Inl e \<Rightarrow> Inl e
      | Inr (ns, st1) \<Rightarrow>
          (case render_all lc tds ys st1 of
             Inl e \<Rightarrow> Inl e
           | Inr (ms, st2) \<Rightarrow> Inr (ns @ n # ms, st2)))"

section \<open>The client: state, storage, location and view\<close>

record client =
  state :: app_state
  storage :: "stored option"
  todos :: "string list"
  hash :: string
  view :: "node list"

text \<open>\<^verbatim>\<open>save()\<close> and \<^verbatim>\<open>navigate(path)\<close>; the assignment to \<^verbatim>\<open>location.hash\<close> is what is modelled.\<close>

definition save :: "client \<Rightarrow> client" where
  "save cl = cl\<lparr>storage := Some (snapshot (state cl))\<rparr>"

definition navigate :: "string \<Rightarrow> client \<Rightarrow> client" where
  "navigate path cl = cl\<lparr>hash := path\<rparr>"

text \<open>The page load: lines 3 to 12 of the source.\<close>

definition load_client :: "sample \<Rightarrow> client \<Rightarrow> client" where
  "load_client smp cl = save (cl\<lparr>state := init_state smp (storage cl), view := []\<rparr>)"

text \<open>
  \<^verbatim>\<open>renderRoute\<close>: the page is emptied first, and the new container is attached only
  after every component has rendered.
\<close>

definition renderRoute ::
  "(string \<Rightarrow> string) \<Rightarrow> route \<Rightarrow> client \<Rightarrow> (error \<times> client) + client" where
  "renderRoute lc r cl =
     (case render_all lc (todos cl) (case r_components r of None \<Rightarrow> [] | Some cs \<Rightarrow> cs) (state cl) of
        Inl (e, st1) \<Rightarrow> Inl (e, cl\<lparr>state := st1, view := []\<rparr>)
      | Inr (ns, st1) \<Rightarrow> Inr (cl\<lparr>state := st1, view := ns\<rparr>))"

subsection \<open>Routing\<close>

text \<open>
  \<^verbatim>\<open>routeMap\<close>: a later route with the same path takes the place of the earlier one;
  an assignment to the key \<^verbatim>\<open>__proto__\<close> creates no property.
\<close>

definition route_key :: "route \<Rightarrow> string" where
  "route_key r = or_str (r_path r) ''#/''"

definition routeMap :: "route list \<Rightarrow> (string \<times> route) list" where
  "routeMap bp =
     fold (\<lambda>r m. if route_key r = ''__proto__'' then m else set_prop (route_key r) r m) bp []"

definition is_digit :: "char \<Rightarrow> bool" where
  "is_digit c = (let n = (of_char c :: nat) in 48 \<le> n \<and> n \<le> 57)"

definition parse_nat :: "string \<Rightarrow> nat" where
  "parse_nat s = fold (\<lambda>c n. 10 * n + (of_char c - 48)) s 0"

text \<open>An array index: a canonical decimal numeral below \<open>2^32 - 1\<close>.\<close>

definition is_array_index :: "string \<Rightarrow> bool" where
  "is_array_index s =
     (s \<noteq> [] \<and> list_all is_digit s \<and> (s = ''0'' \<or> hd s \<noteq> CHR ''0'') \<and> parse_nat s < 4294967295)"

text \<open>\<^verbatim>\<open>Object.keys\<close>: array indices in ascending order, then the other keys as inserted.\<close>

definition own_keys :: "(string \<times> 'a) list \<Rightarrow> string list" where
  "own_keys obj =
     sort_key parse_nat (filter is_array_index (map fst obj))
       @ filter (\<lambda>k. \<not> is_array_index k) (map fst obj)"

text \<open>\<^verbatim>\<open>s.replace('#','')\<close>: the first \<^verbatim>\<open>#\<close> is removed.\<close>

fun remove_first_hash :: "string \<Rightarrow> string" where
  "remove_first_hash [] = []"
| "remove_first_hash (c # cs) = (if c = CHR ''#'' then cs else c # remove_first_hash cs)"

definition not_found_route :: route where
  "not_found_route =
     \<lparr>r_path = None, r_title = None,
      r_components = Some [empty_component\<lparr>c_type := JStr ''text'', c_value := Some thai_not_found\<rparr>]\<rparr>"

text \<open>The route \<^verbatim>\<open>router\<close> selects for the current \<^verbatim>\<open>location.hash\<close>.\<close>

definition select_route :: "route list \<Rightarrow> string \<Rightarrow> route" where
  "select_route bp h =
     (let routes = routeMap bp;
          start = (if h \<noteq> [] then h
                   else (case own_keys routes of k # ks \<Rightarrow> k | [] \<Rightarrow> ''#/''));
          full = CHR ''#'' # remove_first_hash start
      in case map_of routes full of
           Some r \<Rightarrow> r
         | None \<Rightarrow> (case map_of routes ''#/'' of Some r \<Rightarrow> r | None \<Rightarrow> not_found_route))"

definition router ::
  "(string \<Rightarrow> string) \<Rightarrow> route list \<Rightarrow> client \<Rightarrow> (error \<times> client) + client" where
  "router lc bp cl = renderRoute lc (select_route bp (hash cl)) cl"

subsection \<open>Actions\<close>

text \<open>\<^verbatim>\<open>el.name||el.id||el.placeholder||'field'\<close> and the value read from a control.\<close>

definition input_key :: "input_el \<Rightarrow> string" where
  "input_key el =
     (if el_name el \<noteq> [] then el_name el
      else if el_id el \<noteq> [] then el_id el
      else if el_placeholder el \<noteq> [] then el_placeholder el
      else ''field'')"

definition input_value :: "input_el \<Rightarrow> jval" where
  "input_value el =
     (if el_type el = ''file'' then (case el_files el of [] \<Rightarrow> JUndef | f # fs \<Rightarrow> JFile f)
      else JStr (el_value el))"

text \<open>The object \<^verbatim>\<open>data\<close> collected from the controls of a form.\<close>

definition extract_data :: "form_el \<Rightarrow> row" where
  "extract_data form =
     fold (\<lambda>el data. if input_key el = ''__proto__'' then data
                      else set_prop (input_key el) (input_value el) data) form []"

text \<open>
  \<^verbatim>\<open>handleAction(action, cfg)\<close>. \<open>lc\<close> is \<^verbatim>\<open>toLowerCase\<close>, \<open>doc\<close> is
  \<^verbatim>\<open>document.getElementById\<close> and \<open>now\<close> the value \<^verbatim>\<open>Date.now()\<close> returns during the call.
\<close>

definition handleAction ::
  "(string \<Rightarrow> string) \<Rightarrow> route list \<Rightarrow> (string \<Rightarrow> form_el option) \<Rightarrow> int \<Rightarrow> string
     \<Rightarrow> action_cfg \<Rightarrow> client \<Rightarrow> (error \<times> client) + client" where
  "handleAction lc bp doc now action cfg cl =
     (if action = ''navigate'' then Inr (navigate (or_str (a_to cfg) ''#/'') cl)
      else if action = ''submit'' then
        (case (case doc (or_str (a_formId cfg) ''__active_form'') of
                 Some el \<Rightarrow> Some el
               | None \<Rightarrow> a_formEl cfg) of
           None \<Rightarrow> Inr cl
         | Some form \<Rightarrow>
             (let data = extract_data form;
                  coll = or_str (a_collection cfg) ''posts''
              in case collection_or_empty (state cl) coll of
                   Inl e \<Rightarrow> Inl (e, cl)
                 | Inr rows \<Rightarrow>
                     (let st1 = (state cl)\<lparr>collections :=
                                   set_prop coll (rows @ [set_prop ''id'' (JNum now) data])
                                     (collections (state cl))\<rparr>;
                          cl1 = save (cl\<lparr>state := st1\<rparr>)
                      in if truthy (a_redirect cfg) then Inr (navigate (the (a_redirect cfg)) cl1)
                         else router lc bp cl1)))
      else Inr cl)"

text \<open>The submit handler of a rendered form, and the click handler of a rendered button.\<close>

definition form_onsubmit ::
  "(string \<Rightarrow> string) \<Rightarrow> route list \<Rightarrow> (string \<Rightarrow> form_el option) \<Rightarrow> int \<Rightarrow> component
     \<Rightarrow> form_el \<Rightarrow> client \<Rightarrow> (error \<times> client) + client" where
  "form_onsubmit lc bp doc now c form cl =
     handleAction lc bp doc now ''submit'' (form_cfg c form) cl"

definition button_onclick ::
  "(string \<Rightarrow> string) \<Rightarrow> route list \<Rightarrow> (string \<Rightarrow> form_el option) \<Rightarrow> int \<Rightarrow> component
     \<Rightarrow> client \<Rightarrow> (error \<times> client) + client" where
  "button_onclick lc bp doc now c cl =
     handleAction lc bp doc now (or_str (c_action c) ''navigate'') (button_cfg c) cl"

text \<open>
  The click handler of the composer's button once the picked file has been read:
  \<open>picked\<close> is the data URL of the file (\<open>None\<close> when no file was chosen), \<open>now_id\<close> and
  \<open>now_ts\<close> are the two readings of \<^verbatim>\<open>Date.now()\<close>.
\<close>

definition composer_post :: "string option \<Rightarrow> string \<Rightarrow> int \<Rightarrow> int \<Rightarrow> client \<Rightarrow> client" where
  "composer_post picked cap now_id now_ts cl =
     (case picked of
        None \<Rightarrow> cl
      | Some img \<Rightarrow>
          navigate ''#/feed''
            (save (cl\<lparr>state := (state cl)\<lparr>posts := posts (state cl) @
               [\<lparr>p_id = now_id, p_user = u_username (currentUser (state cl)), p_img = img,
                 p_caption = cap, p_likes = 0, p_liked = False, p_comments = [],
                 p_ts = now_ts\<rparr>]\<rparr>\<rparr>)))"

subsection \<open>Runs of user actions\<close>

text \<open>The client an event handler leaves behind, whether or not it threw.\<close>

definition client_of :: "(error \<times> client) + client \<Rightarrow> client" where
  "client_of res = (case res of Inl (e, cl) \<Rightarrow> cl | Inr cl \<Rightarrow> cl)"

text \<open>The identifiers of all runtime records of a state: posts first, then the collections.\<close>

definition row_id :: "row \<Rightarrow> jval" where
  "row_id r = row_get r ''id''"

definition record_ids :: "app_state \<Rightarrow> jval list" where
  "record_ids st =
     map (\<lambda>p. JNum (p_id p)) (posts st) @ concat (map (\<lambda>kv. map row_id (snd kv)) (collections st))"

text \<open>
  A user action: a call of \<^verbatim>\<open>handleAction\<close> (from a button or a form) together with the
  element \<^verbatim>\<open>document.getElementById\<close> finds and the clock reading, or a post from the
  composer with its two clock readings.
\<close>

datatype user_event =
    Action "form_el option" string action_cfg int
  | Compose "string option" string int int

fun step :: "(string \<Rightarrow> string) \<Rightarrow> route list \<Rightarrow> user_event \<Rightarrow> client \<Rightarrow> client" where
  "step lc bp (Action el action cfg now) cl =
     client_of (handleAction lc bp (\<lambda>i. el) now action cfg cl)"
| "step lc bp (Compose picked cap now_id now_ts) cl = composer_post picked cap now_id now_ts cl"

definition run ::
  "(string \<Rightarrow> string) \<Rightarrow> route list \<Rightarrow> user_event list \<Rightarrow> client \<Rightarrow> client" where
  "run lc bp evs cl = fold (step lc bp) evs cl"

fun clock_of :: "user_event \<Rightarrow> int" where
  "clock_of (Action el action cfg now) = now"
| "clock_of (Compose picked cap now_id now_ts) = now_id"

section \<open>Blueprint model and deep merge\<close>

text \<open>
  The merge engine runs in the build server, whose code is not among the sources; the
  sources only document it (\<^verbatim>\<open>docs/REVISE_USAGE.md\<close>: delta fields are deep-merged, arrays
  are merged by set-union order, duplicates are avoided). The definitions of this section
  follow sections 3 and 4.1 of the specification. Routes and components are the records
  the renderer reads. A route is identified by its path; a component, a row and a schema
  field have no identity but their full value, so the union never combines two of them
  field by field, and the rule of section 4.1 for a component of another type at the same
  position has nothing to act on.
\<close>

text \<open>
  Modelled from the spec: the Blueprint of section 3, which the missing server holds per
  session (\<open>appName\<close>, \<open>uiTheme\<close>, the ordered \<open>routes\<close>, \<open>dataModels\<close> from collection
  name to field list, \<open>sampleData\<close> from collection name to records).
\<close>

record blueprint =
  appName :: string
  uiTheme :: string
  routes :: "route list"
  dataModels :: "(string \<times> string list) list"
  sampleData :: "(string \<times> row list) list"

text \<open>
  Modelled from the spec: the partial Blueprint (delta) of sections 4.1 and 6, any subset
  of the Blueprint's fields; the server that parses it is missing.
\<close>

record delta =
  d_appName :: "string option"
  d_uiTheme :: "string option"
  d_routes :: "route list option"
  d_dataModels :: "(string \<times> string list) list option"
  d_sampleData :: "(string \<times> row list) list option"

text \<open>
  Modelled from the spec: the scalar rule of the missing merge engine (a delta value
  replaces the base value when present; an absent delta field leaves the base untouched).
\<close>

definition merge_scalar :: "'a \<Rightarrow> 'a option \<Rightarrow> 'a" where
  "merge_scalar b d = (case d of None \<Rightarrow> b | Some v \<Rightarrow> v)"

text \<open>
  Modelled from the spec: one step of the missing engine's merge by identity. The delta
  item \<open>d\<close> is combined in place with the first item that has its identity key, and is
  appended when no item has it.
\<close>

fun upsert :: "('a \<Rightarrow> 'k) \<Rightarrow> ('a \<Rightarrow> 'a \<Rightarrow> 'a) \<Rightarrow> 'a \<Rightarrow> 'a list \<Rightarrow> 'a list" where
  "upsert key comb d [] = [d]"
| "upsert key comb d (x # xs) =
     (if key x = key d then comb x d # xs else x # upsert key comb d xs)"

text \<open>
  Modelled from the spec: the array rule of the missing engine (base order first, then
  the delta-only items in delta order, merged by identity key).
\<close>

definition merge_by :: "('a \<Rightarrow> 'k) \<Rightarrow> ('a \<Rightarrow> 'a \<Rightarrow> 'a) \<Rightarrow> 'a list \<Rightarrow> 'a list \<Rightarrow> 'a list" where
  "merge_by key comb base ds = fold (upsert key comb) ds base"

text \<open>
  Modelled from the spec: the item the missing engine arrives at when the delta items
  \<open>ds\<close> are combined into \<open>x\<close> one after the other.
\<close>

definition combine_all :: "('a \<Rightarrow> 'a \<Rightarrow> 'a) \<Rightarrow> 'a list \<Rightarrow> 'a \<Rightarrow> 'a" where
  "combine_all comb ds x = fold (\<lambda>d y. comb y d) ds x"

text \<open>
  Modelled from the spec: the missing engine's union of arrays without an identity key
  (components of a route, rows, schema fields), de-duplicated by full equality: an item
  equal to an existing one is not added again.
\<close>

definition union_items :: "'a list \<Rightarrow> 'a list \<Rightarrow> 'a list" where
  "union_items base ds = merge_by (\<lambda>x. x) (\<lambda>x d. x) base ds"

text \<open>The components of a route, none when the field is missing.\<close>

definition components_of :: "route \<Rightarrow> component list" where
  "components_of r = (case r_components r of None \<Rightarrow> [] | Some cs \<Rightarrow> cs)"

text \<open>
  Modelled from the spec: the missing engine's merge of two routes with the same path.
  The title follows the scalar rule; the components are merged by the array-union rule,
  not replaced.
\<close>

definition merge_route :: "route \<Rightarrow> route \<Rightarrow> route" where
  "merge_route b d =
     b\<lparr>r_title := (case r_title d of None \<Rightarrow> r_title b | Some t \<Rightarrow> Some t),
       r_components := (case r_components d of
                          None \<Rightarrow> r_components b
                        | Some dc \<Rightarrow> Some (union_items (components_of b) dc))\<rparr>"

text \<open>
  The title and the components a route ends with once the delta routes \<open>ds\<close> have been
  merged into it in order.
\<close>

definition titles_merged :: "route list \<Rightarrow> string option \<Rightarrow> string option" where
  "titles_merged ds t = fold (\<lambda>d t. case r_title d of None \<Rightarrow> t | Some s \<Rightarrow> Some s) ds t"

definition components_merged :: "route list \<Rightarrow> component list option \<Rightarrow> component list option" where
  "components_merged ds c =
     fold (\<lambda>d c. case r_components d of
                    None \<Rightarrow> c
                  | Some dc \<Rightarrow> Some (union_items (case c of None \<Rightarrow> [] | Some cs \<Rightarrow> cs) dc)) ds c"

text \<open>
  Modelled from the spec: the missing engine's rule for object-valued fields keyed by
  collection name. A key present in both is merged recursively (its array by union); a
  key present only in the delta is added.
\<close>

definition merge_entry :: "string \<times> 'a list \<Rightarrow> string \<times> 'a list \<Rightarrow> string \<times> 'a list" where
  "merge_entry b d = (fst b, union_items (snd b) (snd d))"

definition merge_object ::
  "(string \<times> 'a list) list \<Rightarrow> (string \<times> 'a list) list \<Rightarrow> (string \<times> 'a list) list" where
  "merge_object base ds = merge_by fst merge_entry base ds"

text \<open>
  Modelled from the spec: \<open>merge(base, delta)\<close> of section 4.1, the function of the
  missing server that applies a delta to a session's Blueprint. It is a function of its
  two arguments and returns a new Blueprint.
\<close>

definition merge :: "blueprint \<Rightarrow> delta \<Rightarrow> blueprint" where
  "merge b d =
     \<lparr>appName = merge_scalar (appName b) (d_appName d),
      uiTheme = merge_scalar (uiTheme b) (d_uiTheme d),
      routes = merge_by r_path merge_route (routes b) (case d_routes d of None \<Rightarrow> [] | Some rs \<Rightarrow> rs),
      dataModels = merge_object (dataModels b) (case d_dataModels d of None \<Rightarrow> [] | Some m \<Rightarrow> m),
      sampleData = merge_object (sampleData b) (case d_sampleData d of None \<Rightarrow> [] | Some m \<Rightarrow> m)\<rparr>"

text \<open>
  Modelled from the spec: the collections a delta introduces (the scaffolding flag of
  section 4.1, computed by the missing server), each name once.
\<close>

definition new_collections :: "blueprint \<Rightarrow> delta \<Rightarrow> string list" where
  "new_collections b d =
     filter (\<lambda>nm. nm \<notin> set (map fst (dataModels b)) \<and> nm \<notin> set (map fst (sampleData b)))
       (remdups (map fst (case d_dataModels d of None \<Rightarrow> [] | Some m \<Rightarrow> m)
                  @ map fst (case d_sampleData d of None \<Rightarrow> [] | Some m \<Rightarrow> m)))"

section \<open>Streaming build\<close>

text \<open>
  The build orchestrator and the streaming gateway belong to the same missing server;
  \<^verbatim>\<open>docs/REVISE_USAGE.md\<close> only lists the events a client receives. The definitions follow
  sections 4.4, 4.5 and 6 of the specification.
\<close>

text \<open>Modelled from the spec: the phases a build of the missing orchestrator goes through.\<close>

datatype phase = Planning | Scaffolding | Generating | Rendering

text \<open>Modelled from the spec: the messages the missing gateway sends (section 6).\<close>

datatype event =
    Status phase string
  | FileStart string
  | TypingLine string string
  | FileComplete string
  | PreviewReady string
  | BuildComplete string string
  | Error string

text \<open>
  Modelled from the spec: what the missing orchestrator meets during one build. The
  collections the delta introduces, the phase in which a collaborator fails (with its
  message) if any, the generated files with their lines, the renderable content, and the
  two artifact locations.
\<close>

record build =
  introduced :: "string list"
  failure :: "(phase \<times> string) option"
  files :: "(string \<times> string list) list"
  preview :: string
  httpUrl :: string
  downloadUrl :: string

text \<open>Modelled from the spec: the end of a build of the missing orchestrator.\<close>

datatype build_end = Ready | Failed string

text \<open>
  Modelled from the spec: the phases of one build, in the order of the state machine of
  section 4.4 of the missing orchestrator; \<open>Scaffolding\<close> is entered only when new
  collections were introduced.
\<close>

definition plan :: "build \<Rightarrow> phase list" where
  "plan b = Planning # (if introduced b = [] then [] else [Scaffolding]) @ [Generating, Rendering]"

text \<open>
  Modelled from the spec: the triple the missing gateway sends for one generated file:
  \<open>file_start\<close>, a \<open>typing_line\<close> per line, \<open>file_complete\<close>.
\<close>

definition file_events :: "string \<times> string list \<Rightarrow> event list" where
  "file_events f = FileStart (fst f) # map (TypingLine (fst f)) (snd f) @ [FileComplete (fst f)]"

text \<open>
  Modelled from the spec: the progress events the missing gateway sends on entering a
  phase: its status, and in \<open>Generating\<close> the triples of the generated files.
\<close>

definition phase_events :: "build \<Rightarrow> phase \<Rightarrow> event list" where
  "phase_events b p =
     Status p [] # (if p = Generating then concat (map file_events (files b)) else [])"

text \<open>
  Modelled from the spec: the missing orchestrator's walk through the phases. A failure
  in a phase ends the walk in \<open>Failed\<close>; after the last phase the build is \<open>Ready\<close>.
\<close>

fun run_phases :: "build \<Rightarrow> phase list \<Rightarrow> event list \<times> build_end" where
  "run_phases b [] = ([], Ready)"
| "run_phases b (p # ps) =
     (case failure b of
        Some (q, msg) \<Rightarrow>
          if q = p then ([Status p []], Failed msg)
          else (phase_events b p @ fst (run_phases b ps), snd (run_phases b ps))
      | None \<Rightarrow> (phase_events b p @ fst (run_phases b ps), snd (run_phases b ps)))"

text \<open>
  Modelled from the spec: the ordered messages of one streaming build of the missing
  gateway (section 6): the progress events, then one \<open>preview_ready\<close>, then the terminal
  event, \<open>build_complete\<close> with the two locations or \<open>error\<close> with the message.
\<close>

definition stream :: "build \<Rightarrow> event list" where
  "stream b =
     fst (run_phases b (plan b))
       @ [PreviewReady (preview b),
          (case snd (run_phases b (plan b)) of
             Ready \<Rightarrow> BuildComplete (httpUrl b) (downloadUrl b)
           | Failed msg \<Rightarrow> Error msg)]"

text \<open>
  Modelled from the spec: the two kinds of message of the missing gateway that section 6
  counts, the preview and the terminal events.
\<close>

fun is_preview :: "event \<Rightarrow> bool" where
  "is_preview (PreviewReady c) = True"
| "is_preview e = False"

fun is_terminal :: "event \<Rightarrow> bool" where
  "is_terminal (BuildComplete h d) = True"
| "is_terminal (Error m) = True"
| "is_terminal e = False"

section \<open>Example inputs\<close>

definition ex_state :: app_state where
  "ex_state =
     \<lparr>currentUser = default_user, users = [default_user], posts = [], notifications = [],
      messages = [], collections = []\<rparr>"

definition ex_client :: client where
  "ex_client = \<lparr>state = ex_state, storage = None, todos = [], hash = ''#/'', view = []\<rparr>"

definition ex_text :: "string \<Rightarrow> component" where
  "ex_text v = empty_component\<lparr>c_type := JStr ''text'', c_value := Some v\<rparr>"

text \<open>The form of the scenario: collection \<^verbatim>\<open>leads\<close>, redirect \<^verbatim>\<open>#/thanks\<close>.\<close>

definition ex_leads_form :: component where
  "ex_leads_form =
     empty_component\<lparr>c_type := JStr ''form'', c_collection := Some ''leads'',
       c_redirect := Some ''#/thanks'',
       c_fields := Some [\<lparr>f_label = Some ''Email'', f_name = Some ''email'', f_id = None, f_type = None\<rparr>]\<rparr>"

definition ex_inputs :: form_el where
  "ex_inputs =
     [\<lparr>el_name = ''email'', el_id = [], el_placeholder = [], el_type = ''text'',
       el_value = ''a@b.c'', el_files = []\<rparr>]"

definition ex_now :: int where
  "ex_now = 1758000000000"

definition ex_home_route :: route where
  "ex_home_route = \<lparr>r_path = Some ''#/home'', r_title = Some ''Home'', r_components = Some [ex_text ''home'']\<rparr>"

definition ex_root_route :: route where
  "ex_root_route = \<lparr>r_path = Some ''#/'', r_title = Some ''Root'', r_components = Some [ex_text ''root'']\<rparr>"

definition ex_unknown :: component where
  "ex_unknown = empty_component\<lparr>c_type := JStr ''unknown_kind_xyz''\<rparr>"

definition ex_post :: post where
  "ex_post =
     \<lparr>p_id = 1, p_user = ''you'', p_img = ''a.png'', p_caption = ''hello'', p_likes = 0,
      p_liked = False, p_comments = [], p_ts = 1\<rparr>"

definition ex_bound :: "string \<Rightarrow> string \<Rightarrow> component" where
  "ex_bound kind nm = empty_component\<lparr>c_type := JStr kind, c_collection := Some nm\<rparr>"

text \<open>A persisted state with a post and a collection, and sample data that differ from it.\<close>

definition ex_stored :: stored where
  "ex_stored =
     empty_stored\<lparr>s_posts := Some [ex_post],
       s_collections :=
         Some [(''leads'', [[(''email'', JStr ''a@b.c''), (''id'', JNum 1758000000000)]])]\<rparr>"

definition ex_sample :: sample where
  "ex_sample =
     \<lparr>sample_users = None,
      sample_posts = Some [ex_post\<lparr>p_id := 2, p_caption := ''seed''\<rparr>],
      sample_notifications = None, sample_messages = None,
      sample_collections = Some [(''leads'', [[(''email'', JStr ''seed@x.y'')]])]\<rparr>"

definition ex_submit_cfg :: "string \<Rightarrow> action_cfg" where
  "ex_submit_cfg nm =
     \<lparr>a_to = None, a_formId = None, a_formEl = Some ex_inputs, a_collection = Some nm,
      a_redirect = Some ''#/thanks''\<rparr>"

definition ex_submit_button :: component where
  "ex_submit_button = empty_component\<lparr>c_type := JStr ''button'', c_action := Some ''submit''\<rparr>"

definition ex_events :: "user_event list" where
  "ex_events =
     [Action None ''submit'' (ex_submit_cfg ''leads'') 1758000000000,
      Compose (Some ''data:image/png;base64,AA'') ''hello'' 1758000000001 1758000000001]"

text \<open>Two form submissions and a post within one millisecond.\<close>

definition ex_same_ms :: "user_event list" where
  "ex_same_ms =
     [Action None ''submit'' (ex_submit_cfg ''leads'') 1758000000000,
      Action None ''submit'' (ex_submit_cfg ''leads'') 1758000000000,
      Compose (Some ''data:image/png;base64,AA'') ''hello'' 1758000000000 1758000000000]"

text \<open>The two deltas of the scenario of section 8, and a Blueprint without routes.\<close>

definition ex_button :: component where
  "ex_button = empty_component\<lparr>c_type := JStr ''button'', c_label := Some ''Go''\<rparr>"

definition ex_empty_blueprint :: blueprint where
  "ex_empty_blueprint = \<lparr>appName = ''App'', uiTheme = ''light'', routes = [], dataModels = [], sampleData = []\<rparr>"

definition ex_route :: "component list \<Rightarrow> route" where
  "ex_route cs = \<lparr>r_path = Some ''#/'', r_title = Some ''Home'', r_components = Some cs\<rparr>"

definition ex_delta :: "component list \<Rightarrow> delta" where
  "ex_delta cs =
     \<lparr>d_appName = None, d_uiTheme = None, d_routes = Some [ex_route cs], d_dataModels = None,
      d_sampleData = None\<rparr>"

definition ex_base_blueprint :: blueprint where
  "ex_base_blueprint = ex_empty_blueprint\<lparr>routes := [ex_route [ex_text ''hi'']]\<rparr>"

text \<open>A build that introduces a collection and succeeds, and one whose generator fails.\<close>

definition ex_build :: build where
  "ex_build =
     \<lparr>introduced = [''orders''], failure = None,
      files = [(''index.html'', [''<html>'', ''</html>''])], preview = ''<html></html>'',
      httpUrl = ''http://localhost:8001/apps/app_7/index.html'',
      downloadUrl = ''http://localhost:8001/apps/app_7.zip''\<rparr>"

definition ex_failed_build :: build where
  "ex_failed_build = ex_build\<lparr>failure := Some (Generating, ''generator timed out'')\<rparr>"

text \<open>A component whose type is markup, and one whose type is a number.\<close>

definition ex_markup_kind :: component where
  "ex_markup_kind = empty_component\<lparr>c_type := JStr ''<img src=x onerror=alert(1)>''\<rparr>"

definition ex_numeric_kind :: component where
  "ex_numeric_kind = empty_component\<lparr>c_type := JNum 5\<rparr>"

text \<open>A route with two components, and a delta for the same path that repeats one of them.\<close>

definition ex_two_blueprint :: blueprint where
  "ex_two_blueprint = ex_empty_blueprint\<lparr>routes := [ex_route [ex_text ''hi'', ex_text ''old'']]\<rparr>"

section \<open>Properties of the renderer\<close>

subsection \<open>Auxiliary facts\<close>

lemma map_of_set_prop: "map_of (set_prop k v m) = (map_of m)(k \<mapsto> v)"
  by (induction m) (auto simp: fun_eq_iff)

lemma renderComponent_Inr_keeps:
  assumes "renderComponent lc tds st c = Inr (n, st1)"
  shows "collections st1 = collections st \<and> mset (posts st1) = mset (posts st)"
  using assms
  by (auto simp: renderComponent_def Let_def split: if_splits sum.splits)

lemma renderComponent_Inl_keeps:
  assumes "renderComponent lc tds st c = Inl (e, st1)"
  shows "st1 = st"
  using assms
  by (auto simp: renderComponent_def Let_def split: if_splits sum.splits)

lemma render_all_keeps:
  "render_all lc tds cs st = Inr (ns, st1) \<or> render_all lc tds cs st = Inl (e, st1)
     \<Longrightarrow> collections st1 = collections st \<and> mset (posts st1) = mset (posts st)"
proof (induction cs arbitrary: st ns)
  case Nil
  then show ?case by auto
next
  case (Cons c cs)
  show ?case
  proof (cases "renderComponent lc tds st c")
    case (Inl a)
    then show ?thesis
      using Cons.prems renderComponent_Inl_keeps [of lc tds st c "fst a" "snd a"]
      by (auto split: sum.splits prod.splits)
  next
    case (Inr b)
    obtain n st2 where b: "b = (n, st2)" by (cases b)
    have k: "collections st2 = collections st \<and> mset (posts st2) = mset (posts st)"
      using renderComponent_Inr_keeps Inr b by blast
    from Cons.prems Inr b
    have "(\<exists>ms. render_all lc tds cs st2 = Inr (ms, st1)) \<or> render_all lc tds cs st2 = Inl (e, st1)"
      by (auto split: sum.splits prod.splits)
    then have "collections st1 = collections st2 \<and> mset (posts st1) = mset (posts st2)"
      using Cons.IH by blast
    with k show ?thesis by simp
  qed
qed

lemma render_all_Inr_keeps:
  "render_all lc tds cs st = Inr (ns, st1)
     \<Longrightarrow> collections st1 = collections st \<and> mset (posts st1) = mset (posts st)"
  using render_all_keeps by blast

lemma render_all_Inl_keeps:
  "render_all lc tds cs st = Inl (e, st1)
     \<Longrightarrow> collections st1 = collections st \<and> mset (posts st1) = mset (posts st)"
  using render_all_keeps by blast

lemma renderRoute_keeps:
  "collections (state (client_of (renderRoute lc r cl))) = collections (state cl)
   \<and> mset (posts (state (client_of (renderRoute lc r cl)))) = mset (posts (state cl))
   \<and> storage (client_of (renderRoute lc r cl)) = storage cl
   \<and> hash (client_of (renderRoute lc r cl)) = hash cl"
  by (auto simp: renderRoute_def client_of_def split: sum.splits prod.splits
        dest: render_all_Inr_keeps render_all_Inl_keeps)

lemma router_keeps:
  "collections (state (client_of (router lc bp cl))) = collections (state cl)
   \<and> mset (posts (state (client_of (router lc bp cl)))) = mset (posts (state cl))
   \<and> storage (client_of (router lc bp cl)) = storage cl
   \<and> hash (client_of (router lc bp cl)) = hash cl"
  unfolding router_def by (rule renderRoute_keeps)


lemma submit_effect:
  fixes lc :: "string \<Rightarrow> string" and now :: int and bp :: "route list"
  assumes "(case doc (or_str (a_formId cfg) ''__active_form'') of Some el \<Rightarrow> Some el | None \<Rightarrow> a_formEl cfg) = Some form"
    and "collection_or_empty (state cl) (or_str (a_collection cfg) ''posts'') = Inr old"
  defines "st1 \<equiv> (state cl)\<lparr>collections :=
                         set_prop (or_str (a_collection cfg) ''posts'')
                           (old @ [set_prop ''id'' (JNum now) (extract_data form)])
                           (collections (state cl))\<rparr>"
  defines "cl2 \<equiv> client_of (handleAction lc bp doc now ''submit'' cfg cl)"
  shows "collections (state cl2) = collections st1"
    and "mset (posts (state cl2)) = mset (posts (state cl))"
    and "storage cl2 = Some (snapshot st1)"
    and "hash cl2 = (if truthy (a_redirect cfg) then the (a_redirect cfg) else hash cl)"
proof -
  have core: "handleAction lc bp doc now ''submit'' cfg cl =
      (if truthy (a_redirect cfg) then Inr (navigate (the (a_redirect cfg)) (save (cl\<lparr>state := st1\<rparr>)))
       else router lc bp (save (cl\<lparr>state := st1\<rparr>)))"
    using assms(1,2) by (simp add: handleAction_def Let_def st1_def)
  note rk = router_keeps [of lc bp "save (cl\<lparr>state := st1\<rparr>)"]
  show "collections (state cl2) = collections st1"
    using rk by (simp add: cl2_def core client_of_def navigate_def save_def)
  show "mset (posts (state cl2)) = mset (posts (state cl))"
    using rk by (simp add: cl2_def core client_of_def navigate_def save_def st1_def)
  show "storage cl2 = Some (snapshot st1)"
    using rk by (simp add: cl2_def core client_of_def navigate_def save_def)
  show "hash cl2 = (if truthy (a_redirect cfg) then the (a_redirect cfg) else hash cl)"
    using rk by (simp add: cl2_def core client_of_def navigate_def save_def)
qed



lemma row_get_own: "map_of r k = Some v \<Longrightarrow> row_get r k = v"
  by (simp add: row_get_def get_prop_def)

lemma collection_or_empty_cases:
  "collection_or_empty st nm = Inr old \<longleftrightarrow>
     (case map_of (collections st) nm of
        Some rs \<Rightarrow> old = rs
      | None \<Rightarrow> nm \<notin> set object_prototype_names \<and> old = [])"
  by (auto simp: collection_or_empty_def get_prop_def split: option.splits)

lemma find_app: "find P (xs @ ys) = (case find P xs of None \<Rightarrow> find P ys | Some x \<Rightarrow> Some x)"
  by (induction xs) auto

lemma map_of_fold_routes:
  assumes "k \<noteq> ''__proto__''"
  shows "map_of (fold (\<lambda>r m. if route_key r = ''__proto__'' then m else set_prop (route_key r) r m) bp m0) k
       = (case find (\<lambda>r. route_key r = k) (rev bp) of Some r \<Rightarrow> Some r | None \<Rightarrow> map_of m0 k)"
  using assms
proof (induction bp arbitrary: m0)
  case Nil
  then show ?case by simp
next
  case (Cons r bp)
  show ?case
    by (simp add: Cons.IH [OF Cons.prems] find_app map_of_set_prop Cons.prems split: option.splits)
qed

lemma map_of_routeMap:
  "k \<noteq> ''__proto__'' \<Longrightarrow> map_of (routeMap bp) k = find (\<lambda>r. route_key r = k) (rev bp)"
  by (simp add: routeMap_def map_of_fold_routes split: option.splits)

lemma render_all_append:
  "render_all lc tds (xs @ ys) st =
     (case render_all lc tds xs st of
        Inl e \<Rightarrow> Inl e
      | Inr (ns, st1) \<Rightarrow>
          (case render_all lc tds ys st1 of
             Inl e \<Rightarrow> Inl e
           | Inr (ms, st2) \<Rightarrow> Inr (ns @ ms, st2)))"
  by (induction xs arbitrary: st) (auto split: sum.splits prod.splits)

lemma render_all_insert:
  assumes "\<And>st1. renderComponent lc tds st1 c = Inr (n, st1)"
  shows "render_all lc tds (xs @ c # ys) st = render_around lc tds xs n ys st"
  by (auto simp: render_all_append render_around_def assms split: sum.splits prod.splits)

lemma forms_not_inherited:
  "collection_or_empty st ''forms'' = Inr (case map_of (collections st) ''forms'' of None \<Rightarrow> [] | Some rs \<Rightarrow> rs)"
  "collection_or_empty st ''posts'' = Inr (case map_of (collections st) ''posts'' of None \<Rightarrow> [] | Some rs \<Rightarrow> rs)"
  by (simp_all add: collection_or_empty_def get_prop_def object_prototype_names_def split: option.splits)


lemma ids_after_append:
  assumes "map_of cols k = Some rows \<or> (map_of cols k = None \<and> rows = [])"
  shows "mset (concat (map (\<lambda>kv. map row_id (snd kv)) (set_prop k (rows @ [r]) cols)))
       = add_mset (row_id r) (mset (concat (map (\<lambda>kv. map row_id (snd kv)) cols)))"
  using assms by (induction cols) (auto split: if_splits)

lemma new_row_id: "row_id (set_prop ''id'' (JNum now) data) = JNum now"
  by (simp add: row_id_def row_get_own map_of_set_prop)

lemma mset_record_ids:
  "mset (record_ids st) = image_mset (\<lambda>p. JNum (p_id p)) (mset (posts st))
       + mset (concat (map (\<lambda>kv. map row_id (snd kv)) (collections st)))"
  by (simp add: record_ids_def)

lemma action_ids:
  "mset (record_ids (state (client_of (handleAction lc bp doc now action cfg cl)))) = mset (record_ids (state cl))
   \<or> mset (record_ids (state (client_of (handleAction lc bp doc now action cfg cl))))
        = add_mset (JNum now) (mset (record_ids (state cl)))"
proof (cases "action = ''submit''")
  case False
  then show ?thesis
    by (simp add: handleAction_def client_of_def navigate_def)
next
  case True
  show ?thesis
  proof (cases "case doc (or_str (a_formId cfg) ''__active_form'') of Some el \<Rightarrow> Some el | None \<Rightarrow> a_formEl cfg")
    case None
    then show ?thesis using True by (simp add: handleAction_def client_of_def)
  next
    case (Some form)
    show ?thesis
    proof (cases "collection_or_empty (state cl) (or_str (a_collection cfg) ''posts'')")
      case (Inl e)
      then show ?thesis using True Some by (simp add: handleAction_def client_of_def Let_def)
    next
      case (Inr old)
      note eff = submit_effect(1,2) [where doc = doc and cfg = cfg and form = form and cl = cl
          and bp = bp and now = now and old = old, OF Some Inr]
      have o: "map_of (collections (state cl)) (or_str (a_collection cfg) ''posts'') = Some old
           \<or> (map_of (collections (state cl)) (or_str (a_collection cfg) ''posts'') = None \<and> old = [])"
        using Inr by (auto simp: collection_or_empty_cases split: option.splits)
      have "mset (record_ids (state (client_of (handleAction lc bp doc now ''submit'' cfg cl))))
              = add_mset (JNum now) (mset (record_ids (state cl)))"
        by (simp add: mset_record_ids eff ids_after_append [OF o] new_row_id)
      then show ?thesis using True by simp
    qed
  qed
qed

lemma step_ids:
  "mset (record_ids (state (step lc bp ev cl))) = mset (record_ids (state cl))
   \<or> mset (record_ids (state (step lc bp ev cl))) = add_mset (JNum (clock_of ev)) (mset (record_ids (state cl)))"
proof (cases ev)
  case (Action el action cfg now)
  then show ?thesis using action_ids [of lc bp "\<lambda>i. el" now action cfg cl] by simp
next
  case (Compose picked cap now_id now_ts)
  then show ?thesis
    by (cases picked) (simp_all add: composer_post_def navigate_def save_def record_ids_def)
qed


subsection \<open>Evaluation of the examples\<close>

lemmas ex_defs = ex_state_def ex_client_def ex_text_def ex_leads_form_def ex_inputs_def ex_now_def
  ex_home_route_def ex_root_route_def ex_unknown_def ex_markup_kind_def ex_numeric_kind_def ex_post_def ex_bound_def ex_stored_def ex_sample_def
  ex_submit_cfg_def empty_component_def empty_stored_def ex_submit_button_def ex_events_def ex_same_ms_def

lemmas js_defs = or_opt_def or_str_def truthy_def nullish_def get_prop_def row_get_def
  object_prototype_names_def ascii_lower_def lower_char_def escapeHtml_def is_special_def

lemmas render_defs = kind_of_def js_truthy_def renderComponent_def bindItems_def renderTable_def
  collection_or_empty_def known_kinds_def render_around_def Let_def

lemmas action_defs = handleAction_def form_onsubmit_def button_onclick_def form_cfg_def button_cfg_def
  extract_data_def input_key_def input_value_def navigate_def save_def client_of_def
  row_id_def record_ids_def run_def composer_post_def

lemma render_all_insert_coll:
  assumes "\<And>st1. collections st1 = collections st \<Longrightarrow> renderComponent lc tds st1 c = Inr (n, st1)"
  shows "render_all lc tds (xs @ c # ys) st = render_around lc tds xs n ys st"
proof (cases "render_all lc tds xs st")
  case (Inl e)
  then show ?thesis by (simp add: render_all_append render_around_def)
next
  case (Inr b)
  obtain ns st1 where b: "b = (ns, st1)" by (cases b)
  have "collections st1 = collections st"
    using render_all_Inr_keeps Inr b by blast
  then have "renderComponent lc tds st1 c = Inr (n, st1)" by (rule assms)
  then show ?thesis
    using Inr b by (auto simp: render_all_append render_around_def split: sum.splits prod.splits)
qed

subsection \<open>Form submission\<close>




subsection \<open>Unknown component kinds\<close>

text \<open>
  What the last line of \<^verbatim>\<open>renderComponent\<close> does: a component whose type is a string
  (or falsy) and whose kind is none of the fourteen known kinds renders, without an
  exception and without touching the state, to a card whose inner HTML is the kind in
  square brackets, as it stands; the route around it renders as its other components do
  by themselves; and the card is text only when the kind holds no \<^verbatim>\<open><\<close>.
\<close>

lemma unknown_kind_card:
  assumes "kind_of lc c = Inr t" and "t \<notin> set known_kinds"
  shows "renderComponent lc tds st c = Inr (Card (''['' @ t @ '']''), st)
       \<and> render_all lc tds (xs @ c # ys) st = render_around lc tds xs (Card (''['' @ t @ '']'')) ys st
       \<and> plain_text (''['' @ t @ '']'') = plain_text t"
proof -
  have r: "renderComponent lc tds st1 c = Inr (Card (''['' @ t @ '']''), st1)" for st1
    using assms by (simp add: renderComponent_def known_kinds_def)
  have "render_all lc tds (xs @ c # ys) st = render_around lc tds xs (Card (''['' @ t @ '']'')) ys st"
    using r by (rule render_all_insert)
  then show ?thesis
    using r by (simp add: plain_text_def)
qed

text \<open>
  Claim C4 asks for an inert placeholder that never throws, and the code misses it in two
  cases. The kind goes into the inner HTML of the card unescaped, where the \<^verbatim>\<open>text\<close> arm
  next to it escapes its value: the unknown kind \<^verbatim>\<open><img src=x onerror=alert(1)>\<close> renders
  to a card that holds an \<^verbatim>\<open>img\<close> element with an event handler, while the same string as
  the value of a text component renders to plain text. And a type that is a truthy
  non-string, such as the number 5, has no \<^verbatim>\<open>toLowerCase\<close>: the call throws, and the route
  that holds the component renders nothing.
\<close>

theorem unknown_kind_not_inert:
  "renderComponent ascii_lower [] ex_state ex_markup_kind
     = Inr (Card ''[<img src=x onerror=alert(1)>]'', ex_state)
   \<and> holds_element ''[<img src=x onerror=alert(1)>]''
   \<and> renderComponent ascii_lower [] ex_state (ex_text ''<img src=x onerror=alert(1)>'')
     = Inr (Card ''&lt;img src=x onerror=alert(1)&gt;'', ex_state)
   \<and> plain_text ''&lt;img src=x onerror=alert(1)&gt;''
   \<and> renderComponent ascii_lower [] ex_state ex_numeric_kind
     = Inl (TypeError ''toLowerCase'', ex_state)
   \<and> render_all ascii_lower [] [ex_text ''hi'', ex_numeric_kind, ex_text ''bye''] ex_state
     = Inl (TypeError ''toLowerCase'', ex_state)"
  by (simp add: ex_defs js_defs render_defs plain_text_def is_ascii_letter_def)

subsection \<open>Unknown paths\<close>

text \<open>
  Claim C5, as the code has it: on a navigation to a non-empty hash that no route
  matches, the router renders the route whose path is \<^verbatim>\<open>#/\<close> (the last such route, a
  missing path counting as \<^verbatim>\<open>#/\<close>), wherever it stands in the routes sequence, and the
  not-found placeholder when there is none.
\<close>

theorem unknown_path_route:
  assumes "hash cl \<noteq> []"
    and "\<forall>r \<in> set bp. route_key r \<noteq> CHR ''#'' # remove_first_hash (hash cl)"
  shows "router lc bp cl =
           renderRoute lc (case find (\<lambda>r. route_key r = ''#/'') (rev bp) of
                          Some r \<Rightarrow> r
                        | None \<Rightarrow> not_found_route) cl"
proof -
  have "find (\<lambda>r. route_key r = CHR ''#'' # remove_first_hash (hash cl)) (rev bp) = None"
    using assms(2) by (simp add: find_None_iff)
  then show ?thesis
    using assms(1) by (simp add: router_def select_route_def map_of_routeMap Let_def)
qed

theorem unknown_path_route_witness:
  "router ascii_lower [ex_home_route, ex_root_route] (ex_client\<lparr>hash := ''#/zzz''\<rparr>)
     = Inr (ex_client\<lparr>hash := ''#/zzz'', view := [Card ''root'']\<rparr>)
   \<and> router ascii_lower [ex_home_route] (ex_client\<lparr>hash := ''#/zzz''\<rparr>)
     = Inr (ex_client\<lparr>hash := ''#/zzz'', view := [Card thai_not_found]\<rparr>)"
proof -
  let ?cl = "ex_client\<lparr>hash := ''#/zzz''\<rparr>"
  have h: "hash ?cl \<noteq> []" by simp
  have a: "\<forall>r \<in> set [ex_home_route, ex_root_route]. route_key r \<noteq> CHR ''#'' # remove_first_hash (hash ?cl)"
    by (simp add: ex_defs js_defs route_key_def)
  have b: "\<forall>r \<in> set [ex_home_route]. route_key r \<noteq> CHR ''#'' # remove_first_hash (hash ?cl)"
    by (simp add: ex_defs js_defs route_key_def)
  have fa: "find (\<lambda>r. route_key r = ''#/'') (rev [ex_home_route, ex_root_route]) = Some ex_root_route"
    by (simp add: ex_defs js_defs route_key_def)
  have fb: "find (\<lambda>r. route_key r = ''#/'') (rev [ex_home_route]) = None"
    by (simp add: ex_defs js_defs route_key_def)
  have ra: "renderRoute ascii_lower ex_root_route ?cl = Inr (ex_client\<lparr>hash := ''#/zzz'', view := [Card ''root'']\<rparr>)"
    by (simp add: ex_defs js_defs render_defs renderRoute_def)
  have rb: "renderRoute ascii_lower not_found_route ?cl = Inr (ex_client\<lparr>hash := ''#/zzz'', view := [Card thai_not_found]\<rparr>)"
    by (simp add: ex_defs js_defs render_defs renderRoute_def not_found_route_def thai_not_found_def)
  show ?thesis
    using unknown_path_route [OF h a] unknown_path_route [OF h b]
    by (simp only: fa fb ra rb option.case)
qed

text \<open>
  Claim C5 as stated fails when the first route is not the one at \<^verbatim>\<open>#/\<close>: with the routes
  \<^verbatim>\<open>#/home\<close>, \<^verbatim>\<open>#/\<close> and the unknown hash \<^verbatim>\<open>#/zzz\<close> the router selects the second
  route, which is neither the first route nor the not-found placeholder.
\<close>

theorem unknown_path_counterexample:
  "select_route [ex_home_route, ex_root_route] ''#/zzz'' = ex_root_route
   \<and> ex_root_route \<noteq> hd [ex_home_route, ex_root_route]
   \<and> ex_root_route \<noteq> not_found_route"
  by (simp add: ex_defs js_defs select_route_def routeMap_def route_key_def not_found_route_def)

subsection \<open>Seeding\<close>

lemma jsonify_collections_snapshot:
  "s_collections (snapshot st)
     = Some (map (\<lambda>kv. (fst kv, map jsonify_fields (snd kv))) (collections st))"
  by (simp add: snapshot_def)

text \<open>
  Claim C6: whatever of the runtime state is persisted is what a page load starts from,
  the sample data notwithstanding. Every field that the persisted state holds (the
  collections, the posts, the users, the notifications, the messages, the current user)
  is taken from it unchanged, so no persisted collection is reseeded or overwritten. What
  \<^verbatim>\<open>save\<close> has written comes back whole on the next load: the state before the save, with
  every record as JSON keeps it. And since a load ends with a save, a second load, with
  whatever sample data, returns the state of the first: the state is seeded once.
\<close>

theorem reload_never_reseeds:
  "(storage cl = Some s \<longrightarrow>
      (\<forall>v. s_collections s = Some v \<longrightarrow> collections (state (load_client smp cl)) = v)
      \<and> (\<forall>v. s_posts s = Some v \<longrightarrow> posts (state (load_client smp cl)) = v)
      \<and> (\<forall>v. s_users s = Some v \<longrightarrow> users (state (load_client smp cl)) = v)
      \<and> (\<forall>v. s_notifications s = Some v \<longrightarrow> notifications (state (load_client smp cl)) = v)
      \<and> (\<forall>v. s_messages s = Some v \<longrightarrow> messages (state (load_client smp cl)) = v)
      \<and> (\<forall>v. s_currentUser s = Some v \<longrightarrow> currentUser (state (load_client smp cl)) = v))
   \<and> state (load_client smp (save cl))
       = (state cl)\<lparr>collections :=
            map (\<lambda>kv. (fst kv, map jsonify_fields (snd kv))) (collections (state cl))\<rparr>
   \<and> state (load_client smp2 (load_client smp cl))
       = (state (load_client smp cl))\<lparr>collections :=
            map (\<lambda>kv. (fst kv, map jsonify_fields (snd kv)))
              (collections (state (load_client smp cl)))\<rparr>"
proof -
  have kept: "state (load_client smp0 (save cl0))
       = (state cl0)\<lparr>collections :=
            map (\<lambda>kv. (fst kv, map jsonify_fields (snd kv))) (collections (state cl0))\<rparr>"
    for smp0 cl0
    by (simp add: load_client_def save_def init_state_def parse_storage_def or_else_def
          snapshot_def Let_def)
  have again: "load_client smp cl = save (cl\<lparr>state := init_state smp (storage cl), view := []\<rparr>)"
    by (simp add: load_client_def)
  have first: "storage cl = Some s \<longrightarrow>
      (\<forall>v. s_collections s = Some v \<longrightarrow> collections (state (load_client smp cl)) = v)
      \<and> (\<forall>v. s_posts s = Some v \<longrightarrow> posts (state (load_client smp cl)) = v)
      \<and> (\<forall>v. s_users s = Some v \<longrightarrow> users (state (load_client smp cl)) = v)
      \<and> (\<forall>v. s_notifications s = Some v \<longrightarrow> notifications (state (load_client smp cl)) = v)
      \<and> (\<forall>v. s_messages s = Some v \<longrightarrow> messages (state (load_client smp cl)) = v)
      \<and> (\<forall>v. s_currentUser s = Some v \<longrightarrow> currentUser (state (load_client smp cl)) = v)"
    by (simp add: load_client_def save_def init_state_def parse_storage_def or_else_def Let_def)
  have third: "state (load_client smp2 (load_client smp cl))
       = (state (load_client smp cl))\<lparr>collections :=
            map (\<lambda>kv. (fst kv, map jsonify_fields (snd kv)))
              (collections (state (load_client smp cl)))\<rparr>"
    unfolding again
    using kept [of smp2 "cl\<lparr>state := init_state smp (storage cl), view := []\<rparr>"]
    by (simp add: save_def)
  show ?thesis
    using first kept [of smp cl] third by blast
qed

theorem reload_never_reseeds_witness:
  "collections (state (load_client ex_sample (ex_client\<lparr>storage := Some ex_stored\<rparr>)))
     = [(''leads'', [[(''email'', JStr ''a@b.c''), (''id'', JNum 1758000000000)]])]
   \<and> posts (state (load_client ex_sample (ex_client\<lparr>storage := Some ex_stored\<rparr>))) = [ex_post]"
proof -
  have a: "storage (ex_client\<lparr>storage := Some ex_stored\<rparr>) = Some ex_stored" by simp
  have b: "s_collections ex_stored
             = Some [(''leads'', [[(''email'', JStr ''a@b.c''), (''id'', JNum 1758000000000)]])]"
    and c: "s_posts ex_stored = Some [ex_post]"
    by (simp_all add: ex_stored_def empty_stored_def)
  note t = reload_never_reseeds [of "ex_client\<lparr>storage := Some ex_stored\<rparr>" ex_stored ex_sample,
      THEN conjunct1, rule_format, OF a]
  show ?thesis
    using t [THEN conjunct1, rule_format, OF b] t [THEN conjunct2, THEN conjunct1, rule_format, OF c]
    by (intro conjI)
qed

subsection \<open>Identifiers\<close>

lemma run_ids_distinct:
  assumes "distinct (record_ids (state cl))"
    and "distinct (map clock_of evs)"
    and "\<forall>ev \<in> set evs. JNum (clock_of ev) \<notin> set (record_ids (state cl))"
  shows "distinct (record_ids (state (run lc bp evs cl)))"
  using assms unfolding run_def
proof (induction evs arbitrary: cl)
  case Nil
  then show ?case by simp
next
  case (Cons ev evs)
  let ?cl = "step lc bp ev cl"
  from step_ids [of lc bp ev cl]
  have sub: "set (record_ids (state ?cl)) \<subseteq> insert (JNum (clock_of ev)) (set (record_ids (state cl)))"
    by (metis set_mset_mset set_mset_add_mset_insert subset_insertI subset_refl)
  have fresh: "JNum (clock_of ev) \<notin> set (record_ids (state cl))"
    using Cons.prems(3) by simp
  have d: "distinct (record_ids (state ?cl))"
  proof -
    from step_ids [of lc bp ev cl] show ?thesis
    proof
      assume "mset (record_ids (state ?cl)) = mset (record_ids (state cl))"
      then show ?thesis using Cons.prems(1) by (metis mset_eq_imp_distinct_iff)
    next
      assume "mset (record_ids (state ?cl)) = add_mset (JNum (clock_of ev)) (mset (record_ids (state cl)))"
      then have "mset (record_ids (state ?cl)) = mset (JNum (clock_of ev) # record_ids (state cl))"
        by simp
      moreover have "distinct (JNum (clock_of ev) # record_ids (state cl))"
        using Cons.prems(1) fresh by simp
      ultimately show ?thesis by (metis mset_eq_imp_distinct_iff)
    qed
  qed
  have "\<forall>e \<in> set evs. JNum (clock_of e) \<notin> set (record_ids (state ?cl))"
  proof
    fix e
    assume e: "e \<in> set evs"
    show "JNum (clock_of e) \<notin> set (record_ids (state ?cl))"
    proof
      assume "JNum (clock_of e) \<in> set (record_ids (state ?cl))"
      then have "JNum (clock_of e) = JNum (clock_of ev) \<or> JNum (clock_of e) \<in> set (record_ids (state cl))"
        using sub by blast
      moreover have "clock_of e \<noteq> clock_of ev"
        using Cons.prems(2) e by (metis distinct.simps(2) image_eqI list.simps(9) set_map)
      moreover have "JNum (clock_of e) \<notin> set (record_ids (state cl))"
        using Cons.prems(3) e by simp
      ultimately show False by simp
    qed
  qed
  with Cons.IH [OF d] Cons.prems(2) show ?case by simp
qed

lemma step_ids_subset:
  "set (record_ids (state (step lc bp ev cl))) \<subseteq> insert (JNum (clock_of ev)) (set (record_ids (state cl)))"
proof -
  from step_ids [of lc bp ev cl] show ?thesis
  proof
    assume "mset (record_ids (state (step lc bp ev cl))) = mset (record_ids (state cl))"
    then have "set (record_ids (state (step lc bp ev cl))) = set (record_ids (state cl))"
      by (rule mset_eq_setD)
    then show ?thesis by blast
  next
    assume "mset (record_ids (state (step lc bp ev cl)))
              = add_mset (JNum (clock_of ev)) (mset (record_ids (state cl)))"
    then have "mset (record_ids (state (step lc bp ev cl))) = mset (JNum (clock_of ev) # record_ids (state cl))"
      by simp
    then have "set (record_ids (state (step lc bp ev cl))) = set (JNum (clock_of ev) # record_ids (state cl))"
      by (rule mset_eq_setD)
    then show ?thesis by simp
  qed
qed

lemma run_ids_subset:
  "set (record_ids (state (run lc bp evs cl)))
     \<subseteq> set (record_ids (state cl)) \<union> (\<lambda>ev. JNum (clock_of ev)) ` set evs"
  unfolding run_def
proof (induction evs arbitrary: cl)
  case Nil
  show ?case by simp
next
  case (Cons ev evs)
  show ?case
    using Cons.IH [of "step lc bp ev cl"] step_ids_subset [of lc bp ev cl] by auto
qed


text \<open>
  Claim C7, as the code has it: the identifier of a record created by a form submission,
  a button submit or the composer is the reading of the clock at that moment. Over a run
  of such actions the identifiers of all runtime records stay pairwise distinct, provided
  they were distinct at the start, the clock readings of the actions are pairwise
  distinct, and no reading is an identifier already in the state; and every identifier
  after the run is one from before it or the clock reading of one of the actions.
\<close>

theorem ids_stay_distinct:
  assumes "distinct (record_ids (state cl))"
    and "distinct (map clock_of evs)"
    and "\<forall>ev \<in> set evs. JNum (clock_of ev) \<notin> set (record_ids (state cl))"
  shows "distinct (record_ids (state (run lc bp evs cl)))
       \<and> set (record_ids (state (run lc bp evs cl)))
           \<subseteq> set (record_ids (state cl)) \<union> (\<lambda>ev. JNum (clock_of ev)) ` set evs"
proof
  show "distinct (record_ids (state (run lc bp evs cl)))"
    using assms by (rule run_ids_distinct)
  show "set (record_ids (state (run lc bp evs cl)))
          \<subseteq> set (record_ids (state cl)) \<union> (\<lambda>ev. JNum (clock_of ev)) ` set evs"
    by (rule run_ids_subset)
qed

theorem ids_stay_distinct_witness:
  "distinct (record_ids (state (run ascii_lower [] ex_events ex_client)))"
proof -
  have a: "distinct (record_ids (state ex_client))"
    by (simp add: ex_defs record_ids_def)
  have b: "distinct (map clock_of ex_events)"
    by (simp add: ex_defs)
  have c: "\<forall>ev \<in> set ex_events. JNum (clock_of ev) \<notin> set (record_ids (state ex_client))"
    by (simp add: ex_defs record_ids_def)
  show ?thesis by (rule ids_stay_distinct [OF a b c, THEN conjunct1])
qed

text \<open>
  Claim C7 as stated fails when two records are created within one millisecond: two form
  submissions and a composer post at the same clock reading give three records with the
  same identifier.
\<close>

theorem ids_distinct_counterexample:
  "record_ids (state (run ascii_lower [] ex_same_ms ex_client))
     = [JNum 1758000000000, JNum 1758000000000, JNum 1758000000000]"
  by (simp add: ex_defs js_defs action_defs collection_or_empty_def Let_def)

subsection \<open>Missing collections\<close>

text \<open>
  Claim C9, as the code has it. Let a component name a collection that the state does
  not hold and that \<^verbatim>\<open>Object.prototype\<close> does not define. A list without inline \<^verbatim>\<open>items\<close>
  then renders no item, and a table without inline \<^verbatim>\<open>rows\<close> renders its header and no
  row; neither throws nor touches the state, and the route around it renders as its other
  components do by themselves. (A grid reads the posts, not a collection.)
\<close>

theorem missing_collection_renders_empty:
  assumes "c_collection c = Some nm" and "nm \<noteq> []"
    and "map_of (collections st) nm = None" and "nm \<notin> set object_prototype_names"
  shows "(kind_of lc c = Inr ''list'' \<and> c_items c = None \<longrightarrow>
            renderComponent lc tds st c = Inr (ListNode [], st)
            \<and> render_all lc tds (xs @ c # ys) st = render_around lc tds xs (ListNode []) ys st)
       \<and> (kind_of lc c = Inr ''table'' \<and> c_rows c = None \<longrightarrow>
            renderComponent lc tds st c
              = Inr (TableNode (map column_header (case c_columns c of None \<Rightarrow> [] | Some cs \<Rightarrow> cs)) [], st)
            \<and> render_all lc tds (xs @ c # ys) st
              = render_around lc tds xs
                  (TableNode (map column_header (case c_columns c of None \<Rightarrow> [] | Some cs \<Rightarrow> cs)) []) ys st)"
proof (intro conjI impI)
  assume k: "kind_of lc c = Inr ''list'' \<and> c_items c = None"
  have r: "renderComponent lc tds st1 c = Inr (ListNode [], st1)" if "collections st1 = collections st" for st1
    using assms k that
    by (simp add: renderComponent_def bindItems_def collection_or_empty_def get_prop_def truthy_def Let_def)
  show "renderComponent lc tds st c = Inr (ListNode [], st)" using r by simp
  show "render_all lc tds (xs @ c # ys) st = render_around lc tds xs (ListNode []) ys st"
    using r by (rule render_all_insert_coll)
next
  assume k: "kind_of lc c = Inr ''table'' \<and> c_rows c = None"
  let ?n = "TableNode (map column_header (case c_columns c of None \<Rightarrow> [] | Some cs \<Rightarrow> cs)) []"
  have r: "renderComponent lc tds st1 c = Inr (?n, st1)" if "collections st1 = collections st" for st1
    using assms k that
    by (simp add: renderComponent_def renderTable_def collection_or_empty_def get_prop_def truthy_def Let_def)
  show "renderComponent lc tds st c = Inr (?n, st)" using r by simp
  show "render_all lc tds (xs @ c # ys) st = render_around lc tds xs ?n ys st"
    using r by (rule render_all_insert_coll)
qed

theorem missing_collection_renders_empty_witness:
  "renderComponent ascii_lower [] ex_state (ex_bound ''list'' ''missing'') = Inr (ListNode [], ex_state)
   \<and> render_all ascii_lower [] ([ex_text ''hi''] @ ex_bound ''list'' ''missing'' # [ex_text ''bye'']) ex_state
       = Inr ([Card ''hi'', ListNode [], Card ''bye''], ex_state)
   \<and> renderComponent ascii_lower [] ex_state (ex_bound ''table'' ''missing'') = Inr (TableNode [] [], ex_state)"
  using missing_collection_renders_empty [where c = "ex_bound ''list'' ''missing''" and nm = "''missing''"
      and tds = "[]" and st = ex_state and xs = "[ex_text ''hi'']" and ys = "[ex_text ''bye'']"]
    missing_collection_renders_empty [where c = "ex_bound ''table'' ''missing''" and nm = "''missing''"
      and tds = "[]" and st = ex_state and xs = "[]" and ys = "[]"]
  by (simp add: ex_defs js_defs render_defs)

text \<open>
  Claim C9 as stated fails in three ways: a grid that names a missing collection shows
  the images of the posts; a list with inline items shows them whatever collection it
  names; and a list bound to the missing collection \<^verbatim>\<open>constructor\<close> throws.
\<close>

theorem missing_collection_counterexample:
  "map_of (collections (ex_state\<lparr>posts := [ex_post]\<rparr>)) ''missing'' = None
   \<and> renderComponent ascii_lower [] (ex_state\<lparr>posts := [ex_post]\<rparr>) (ex_bound ''grid'' ''missing'')
       = Inr (GridNode [''a.png''], ex_state\<lparr>posts := [ex_post]\<rparr>)
   \<and> renderComponent ascii_lower [] ex_state ((ex_bound ''list'' ''missing'')\<lparr>c_items := Some [JStr ''a'']\<rparr>)
       = Inr (ListNode [''a''], ex_state)
   \<and> map_of (collections ex_state) ''constructor'' = None
   \<and> renderComponent ascii_lower [] ex_state (ex_bound ''list'' ''constructor'')
       = Inl (TypeError ''constructor'', ex_state)"
  by (simp add: ex_defs js_defs render_defs)

subsection \<open>Default collections\<close>

text \<open>
  Claim C10: a form that declares no collection, neither as \<^verbatim>\<open>collection\<close> nor as
  \<^verbatim>\<open>submit.collection\<close>, appends its record to the collection \<^verbatim>\<open>forms\<close>; a button whose
  action is \<^verbatim>\<open>submit\<close>, with no collection configured and with its form element present
  in the page, appends its record to the collection \<^verbatim>\<open>posts\<close>.
\<close>

theorem default_target_collections:
  fixes lc :: "string \<Rightarrow> string" and bp :: "route list" and now :: int
  shows "(\<not> truthy (c_collection c)
            \<and> \<not> truthy (case c_submit c of None \<Rightarrow> None | Some s \<Rightarrow> sub_collection s) \<longrightarrow>
          collections (state (client_of (form_onsubmit lc bp doc now c form cl)))
            = set_prop ''forms''
                ((case map_of (collections (state cl)) ''forms'' of None \<Rightarrow> [] | Some rs \<Rightarrow> rs)
                   @ [set_prop ''id'' (JNum now)
                        (extract_data (case doc ''__active_form'' of None \<Rightarrow> form | Some el \<Rightarrow> el))])
                (collections (state cl)))
       \<and> (or_str (c_action c) ''navigate'' = ''submit'' \<and> \<not> truthy (c_collection c)
            \<and> doc (or_str (c_formId c) ''__active_form'') = Some el \<longrightarrow>
          collections (state (client_of (button_onclick lc bp doc now c cl)))
            = set_prop ''posts''
                ((case map_of (collections (state cl)) ''posts'' of None \<Rightarrow> [] | Some rs \<Rightarrow> rs)
                   @ [set_prop ''id'' (JNum now) (extract_data el)])
                (collections (state cl)))"
proof (intro conjI impI)
  assume a: "\<not> truthy (c_collection c)
            \<and> \<not> truthy (case c_submit c of None \<Rightarrow> None | Some s \<Rightarrow> sub_collection s)"
  let ?cfg = "form_cfg c form"
  let ?f = "case doc ''__active_form'' of None \<Rightarrow> form | Some el \<Rightarrow> el"
  have coll: "or_str (a_collection ?cfg) ''posts'' = ''forms''"
    using a by (auto simp: form_cfg_def or_str_def or_opt_def truthy_def split: option.splits)
  have f: "(case doc (or_str (a_formId ?cfg) ''__active_form'') of Some el \<Rightarrow> Some el | None \<Rightarrow> a_formEl ?cfg) = Some ?f"
    by (simp add: form_cfg_def or_str_def split: option.splits)
  show "collections (state (client_of (form_onsubmit lc bp doc now c form cl)))
            = set_prop ''forms''
                ((case map_of (collections (state cl)) ''forms'' of None \<Rightarrow> [] | Some rs \<Rightarrow> rs)
                   @ [set_prop ''id'' (JNum now) (extract_data ?f)])
                (collections (state cl))"
    using submit_effect(1) [where doc = doc and cfg = ?cfg and form = ?f and cl = cl and bp = bp
        and now = now
        and old = "case map_of (collections (state cl)) ''forms'' of None \<Rightarrow> [] | Some rs \<Rightarrow> rs"]
      f forms_not_inherited(1) [of "state cl"]
    by (simp add: coll form_onsubmit_def)
next
  assume a: "or_str (c_action c) ''navigate'' = ''submit'' \<and> \<not> truthy (c_collection c)
            \<and> doc (or_str (c_formId c) ''__active_form'') = Some el"
  let ?cfg = "button_cfg c"
  have coll: "or_str (a_collection ?cfg) ''posts'' = ''posts''"
    using a by (auto simp: button_cfg_def or_str_def truthy_def split: option.splits)
  have f: "(case doc (or_str (a_formId ?cfg) ''__active_form'') of Some el \<Rightarrow> Some el | None \<Rightarrow> a_formEl ?cfg) = Some el"
    using a by (simp add: button_cfg_def)
  show "collections (state (client_of (button_onclick lc bp doc now c cl)))
            = set_prop ''posts''
                ((case map_of (collections (state cl)) ''posts'' of None \<Rightarrow> [] | Some rs \<Rightarrow> rs)
                   @ [set_prop ''id'' (JNum now) (extract_data el)])
                (collections (state cl))"
    using submit_effect(1) [where doc = doc and cfg = ?cfg and form = el and cl = cl and bp = bp
        and now = now
        and old = "case map_of (collections (state cl)) ''posts'' of None \<Rightarrow> [] | Some rs \<Rightarrow> rs"]
      f forms_not_inherited(2) [of "state cl"] a
    by (simp add: coll button_onclick_def)
qed

theorem default_target_collections_witness:
  "collections (state (client_of (form_onsubmit ascii_lower [] (\<lambda>i. None) ex_now
       (ex_leads_form\<lparr>c_collection := None\<rparr>) ex_inputs ex_client)))
     = [(''forms'', [[(''email'', JStr ''a@b.c''), (''id'', JNum ex_now)]])]
   \<and> collections (state (client_of (button_onclick ascii_lower [] (\<lambda>i. Some ex_inputs) ex_now
       ex_submit_button ex_client)))
     = [(''posts'', [[(''email'', JStr ''a@b.c''), (''id'', JNum ex_now)]])]"
proof -
  have a: "\<not> truthy (c_collection (ex_leads_form\<lparr>c_collection := None\<rparr>))
        \<and> \<not> truthy (case c_submit (ex_leads_form\<lparr>c_collection := None\<rparr>) of
                       None \<Rightarrow> None | Some s \<Rightarrow> sub_collection s)"
    by (simp add: ex_defs truthy_def)
  have b: "or_str (c_action ex_submit_button) ''navigate'' = ''submit''
        \<and> \<not> truthy (c_collection ex_submit_button)
        \<and> (\<lambda>i. Some ex_inputs) (or_str (c_formId ex_submit_button) ''__active_form'') = Some ex_inputs"
    by (simp add: ex_defs truthy_def or_str_def)
  have d: "extract_data ex_inputs = [(''email'', JStr ''a@b.c'')]"
    by (simp add: ex_defs extract_data_def input_key_def input_value_def)
  note t1 = default_target_collections [where c = "ex_leads_form\<lparr>c_collection := None\<rparr>"
      and doc = "\<lambda>i. None" and form = ex_inputs and cl = ex_client and bp = "[]" and now = ex_now,
      THEN conjunct1, rule_format, OF a]
  note t2 = default_target_collections [where c = ex_submit_button and el = ex_inputs
      and doc = "\<lambda>i. Some ex_inputs" and cl = ex_client and bp = "[]" and now = ex_now,
      THEN conjunct2, rule_format, OF b]
  show ?thesis
    using t1 t2 by (simp add: d ex_client_def ex_state_def)
qed

section \<open>Properties of the merge\<close>

subsection \<open>Merging by identity key\<close>

lemma combine_all_simps [simp]:
  "combine_all comb [] x = x"
  "combine_all comb (d # ds) x = combine_all comb ds (comb x d)"
  by (simp_all add: combine_all_def)

lemma merge_by_simps [simp]:
  "merge_by key comb base [] = base"
  "merge_by key comb base (d # ds) = merge_by key comb (upsert key comb d base) ds"
  by (simp_all add: merge_by_def)

lemma merge_by_Cons:
  assumes K: "\<And>x d. key x = key d \<Longrightarrow> key (comb x d) = key x"
  shows "merge_by key comb (x # xs) ds
       = combine_all comb (filter (\<lambda>d. key d = key x) ds) x
           # merge_by key comb xs (filter (\<lambda>d. key d \<noteq> key x) ds)"
proof (induction ds arbitrary: x xs)
  case Nil
  show ?case by simp
next
  case (Cons d ds)
  show ?case
  proof (cases "key x = key d")
    case True
    then show ?thesis using Cons.IH [of "comb x d" xs] K [OF True] by simp
  next
    case False
    then show ?thesis using Cons.IH [of x "upsert key comb d xs"] by auto
  qed
qed

lemma key_combine_all:
  assumes K: "\<And>x d. key x = key d \<Longrightarrow> key (comb x d) = key x"
    and "\<forall>d \<in> set ds. key d = key x"
  shows "key (combine_all comb ds x) = key x"
  using assms(2)
proof (induction ds arbitrary: x)
  case Nil
  show ?case by simp
next
  case (Cons d ds)
  have kx: "key (comb x d) = key x" using K Cons.prems by simp
  have "key (combine_all comb ds (comb x d)) = key (comb x d)"
    using Cons.prems kx by (intro Cons.IH) simp
  then show ?case using kx by simp
qed

lemma merge_by_idem_Nil:
  assumes K: "\<And>x d. key x = key d \<Longrightarrow> key (comb x d) = key x"
    and H': "\<And>d ds. \<forall>e \<in> set ds. key e = key d \<Longrightarrow>
               combine_all comb (d # ds) (combine_all comb ds d) = combine_all comb ds d"
  shows "merge_by key comb (merge_by key comb [] ds) ds = merge_by key comb [] ds"
proof (induction ds rule: length_induct)
  case (1 ds)
  show ?case
  proof (cases ds)
    case Nil
    then show ?thesis by simp
  next
    case (Cons d ds')
    let ?same = "filter (\<lambda>e. key e = key d) ds'"
    let ?rest = "filter (\<lambda>e. key e \<noteq> key d) ds'"
    let ?d = "combine_all comb ?same d"
    have first: "merge_by key comb [] ds = ?d # merge_by key comb [] ?rest"
      using Cons merge_by_Cons [where key = key and comb = comb and x = d and xs = "[]" and ds = ds', OF K] by simp
    have kd: "key ?d = key d"
      by (rule key_combine_all [where key = key and comb = comb, OF K]) auto
    have IH: "merge_by key comb (merge_by key comb [] ?rest) ?rest = merge_by key comb [] ?rest"
      using 1 Cons by (simp add: le_imp_less_Suc)
    have "merge_by key comb (?d # merge_by key comb [] ?rest) ds
        = combine_all comb (filter (\<lambda>e. key e = key ?d) ds) ?d
            # merge_by key comb (merge_by key comb [] ?rest) (filter (\<lambda>e. key e \<noteq> key ?d) ds)"
      by (rule merge_by_Cons [where key = key and comb = comb, OF K])
    also have "filter (\<lambda>e. key e = key ?d) ds = d # ?same"
      using Cons kd by simp
    also have "filter (\<lambda>e. key e \<noteq> key ?d) ds = ?rest"
      using Cons kd by simp
    also have "combine_all comb (d # ?same) ?d = ?d"
      by (rule H') auto
    finally show ?thesis using first IH by simp
  qed
qed

lemma merge_by_idem:
  assumes K: "\<And>x d. key x = key d \<Longrightarrow> key (comb x d) = key x"
    and H: "\<And>x ds. \<forall>d \<in> set ds. key d = key x \<Longrightarrow>
               combine_all comb ds (combine_all comb ds x) = combine_all comb ds x"
    and H': "\<And>d ds. \<forall>e \<in> set ds. key e = key d \<Longrightarrow>
               combine_all comb (d # ds) (combine_all comb ds d) = combine_all comb ds d"
  shows "merge_by key comb (merge_by key comb base ds) ds = merge_by key comb base ds"
proof (induction base arbitrary: ds)
  case Nil
  show ?case by (rule merge_by_idem_Nil [where key = key and comb = comb, OF K H'])
next
  case (Cons x xs)
  let ?same = "filter (\<lambda>e. key e = key x) ds"
  let ?rest = "filter (\<lambda>e. key e \<noteq> key x) ds"
  let ?x = "combine_all comb ?same x"
  have first: "merge_by key comb (x # xs) ds = ?x # merge_by key comb xs ?rest"
    by (rule merge_by_Cons [where key = key and comb = comb, OF K])
  have kx: "key ?x = key x"
    by (rule key_combine_all [where key = key and comb = comb, OF K]) auto
  have "merge_by key comb (?x # merge_by key comb xs ?rest) ds
      = combine_all comb (filter (\<lambda>e. key e = key ?x) ds) ?x
          # merge_by key comb (merge_by key comb xs ?rest) (filter (\<lambda>e. key e \<noteq> key ?x) ds)"
    by (rule merge_by_Cons [where key = key and comb = comb, OF K])
  also have "combine_all comb (filter (\<lambda>e. key e = key ?x) ds) ?x = ?x"
    unfolding kx by (rule H) auto
  also have "merge_by key comb (merge_by key comb xs ?rest) (filter (\<lambda>e. key e \<noteq> key ?x) ds)
           = merge_by key comb xs ?rest"
    unfolding kx by (rule Cons.IH)
  finally show ?case using first by simp
qed

subsection \<open>Union of arrays\<close>

lemma upsert_plain: "upsert (\<lambda>x. x) (\<lambda>x d. x) d xs = (if d \<in> set xs then xs else xs @ [d])"
  by (induction xs) auto

lemma union_items_Nil [simp]: "union_items xs [] = xs"
  by (simp add: union_items_def)

lemma union_items_Cons:
  "union_items xs (y # ys) = union_items (if y \<in> set xs then xs else xs @ [y]) ys"
  by (simp add: union_items_def upsert_plain)

lemma union_items_append: "union_items xs (ys @ zs) = union_items (union_items xs ys) zs"
  by (simp add: union_items_def merge_by_def)

lemma union_items_snoc:
  "union_items xs (ys @ [y])
     = (if y \<in> set (union_items xs ys) then union_items xs ys else union_items xs ys @ [y])"
  by (simp add: union_items_def merge_by_def upsert_plain)

lemma set_union_items [simp]: "set (union_items xs ys) = set xs \<union> set ys"
  by (induction ys arbitrary: xs) (auto simp: union_items_Cons)

lemma union_items_absorb: "set ys \<subseteq> set xs \<Longrightarrow> union_items xs ys = xs"
  by (induction ys) (auto simp: union_items_Cons)

lemma union_items_idem: "union_items (union_items xs ys) ys = union_items xs ys"
  by (rule union_items_absorb) simp

lemma union_items_order:
  "union_items xs ys = xs @ filter (\<lambda>y. y \<notin> set xs) (union_items [] ys)"
proof (induction ys rule: rev_induct)
  case Nil
  show ?case by simp
next
  case (snoc y ys)
  show ?case
    by (simp add: union_items_snoc snoc.IH [symmetric])
qed

lemma union_items_distinct: "distinct ys \<Longrightarrow> union_items [] ys = ys"
  by (induction ys rule: rev_induct) (auto simp: union_items_snoc)

subsection \<open>Collections keyed by name\<close>

lemma combine_all_entry:
  "combine_all merge_entry ds x = (fst x, union_items (snd x) (concat (map snd ds)))"
  by (induction ds arbitrary: x) (auto simp: merge_entry_def union_items_append)

lemma merge_object_idem: "merge_object (merge_object base ds) ds = merge_object base ds"
  unfolding merge_object_def
proof (rule merge_by_idem [where key = fst and comb = merge_entry])
  show "fst (merge_entry x d) = fst x" for x d :: "string \<times> 'a list"
    by (simp add: merge_entry_def)
next
  fix x :: "string \<times> 'a list" and ds :: "(string \<times> 'a list) list"
  show "combine_all merge_entry ds (combine_all merge_entry ds x) = combine_all merge_entry ds x"
    by (simp add: combine_all_entry union_items_idem)
next
  fix d :: "string \<times> 'a list" and ds :: "(string \<times> 'a list) list"
  have "union_items (union_items (snd d) (concat (map snd ds))) (snd d)
          = union_items (snd d) (concat (map snd ds))"
    by (rule union_items_absorb) simp
  then show "combine_all merge_entry (d # ds) (combine_all merge_entry ds d) = combine_all merge_entry ds d"
    by (simp add: combine_all_entry merge_entry_def union_items_idem)
qed

subsection \<open>Routes\<close>

lemma titles_merged_simps [simp]:
  "titles_merged [] t = t"
  "titles_merged (d # ds) t = titles_merged ds (case r_title d of None \<Rightarrow> t | Some s \<Rightarrow> Some s)"
  by (simp_all add: titles_merged_def)

lemma components_merged_simps [simp]:
  "components_merged [] c = c"
  "components_merged (d # ds) c =
     components_merged ds (case r_components d of
                             None \<Rightarrow> c
                           | Some dc \<Rightarrow> Some (union_items (case c of None \<Rightarrow> [] | Some cs \<Rightarrow> cs) dc))"
  by (simp_all add: components_merged_def)

lemma combine_all_route:
  "combine_all merge_route ds x
     = x\<lparr>r_title := titles_merged ds (r_title x),
         r_components := components_merged ds (r_components x)\<rparr>"
  by (induction ds arbitrary: x) (auto simp: merge_route_def components_of_def split: option.splits)

lemma titles_merged_cases:
  "(\<forall>t. titles_merged ds t = t) \<or> (\<exists>s. \<forall>t. titles_merged ds t = Some s)"
  by (induction ds) (auto split: option.splits)

lemma titles_merged_idem: "titles_merged ds (titles_merged ds t) = titles_merged ds t"
  using titles_merged_cases [of ds] by auto

lemma components_merged_char:
  "components_merged ds c =
     (if \<forall>d \<in> set ds. r_components d = None then c
      else Some (union_items (case c of None \<Rightarrow> [] | Some cs \<Rightarrow> cs)
                   (concat (map components_of ds))))"
proof (induction ds arbitrary: c)
  case Nil
  show ?case by simp
next
  case (Cons d ds)
  have none: "concat (map components_of ds) = []" if "\<forall>d \<in> set ds. r_components d = None"
    using that by (induction ds) (auto simp: components_of_def)
  show ?case
  proof (cases "r_components d")
    case None
    then have "components_of d = []" by (simp add: components_of_def)
    then show ?thesis using None by (simp add: Cons.IH)
  next
    case (Some dc)
    then have "components_of d = dc" by (simp add: components_of_def)
    then show ?thesis using Some by (simp add: Cons.IH union_items_append none)
  qed
qed

lemma components_merged_idem:
  "components_merged ds (components_merged ds c) = components_merged ds c"
  by (simp add: components_merged_char union_items_idem)

lemma components_merged_own:
  "components_merged ds (Some (union_items (case components_merged ds (Some dc) of None \<Rightarrow> [] | Some cs \<Rightarrow> cs) dc))
     = components_merged ds (Some dc)"
proof -
  have "union_items (union_items dc ys) dc = union_items dc ys" for ys :: "component list"
    by (rule union_items_absorb) simp
  moreover have "union_items dc dc = dc"
    by (rule union_items_absorb) simp
  ultimately show ?thesis
    by (simp add: components_merged_char union_items_idem)
qed

lemma merge_routes_idem:
  "merge_by r_path merge_route (merge_by r_path merge_route base ds) ds
     = merge_by r_path merge_route base ds"
proof (rule merge_by_idem [where key = r_path and comb = merge_route])
  show "r_path (merge_route x d) = r_path x" for x d
    by (simp add: merge_route_def)
next
  fix x :: route and ds :: "route list"
  show "combine_all merge_route ds (combine_all merge_route ds x) = combine_all merge_route ds x"
    by (simp add: combine_all_route titles_merged_idem components_merged_idem)
next
  fix d :: route and ds :: "route list"
  show "combine_all merge_route (d # ds) (combine_all merge_route ds d) = combine_all merge_route ds d"
    by (cases "r_title d"; cases "r_components d")
       (simp_all add: combine_all_route merge_route_def components_of_def titles_merged_idem
          components_merged_idem components_merged_own)
qed

subsection \<open>The item with a given key\<close>

lemma keys_upsert:
  assumes K: "\<And>x d. key x = key d \<Longrightarrow> key (comb x d) = key x"
  shows "key ` set (upsert key comb d xs) = insert (key d) (key ` set xs)"
  by (induction xs) (auto simp: K)

lemma keys_merge_by:
  assumes K: "\<And>x d. key x = key d \<Longrightarrow> key (comb x d) = key x"
  shows "key ` set (merge_by key comb xs ds) = key ` set xs \<union> key ` set ds"
proof (induction ds arbitrary: xs)
  case Nil
  show ?case by simp
next
  case (Cons d ds)
  show ?case
    using Cons.IH [of "upsert key comb d xs"]
      keys_upsert [where key = key and comb = comb and d = d and xs = xs, OF K]
    by auto
qed

lemma merge_by_filter_key:
  assumes K: "\<And>x d. key x = key d \<Longrightarrow> key (comb x d) = key x"
    and "distinct (map key xs)" and "x \<in> set xs"
  shows "filter (\<lambda>y. key y = key x) (merge_by key comb xs ds)
       = [combine_all comb (filter (\<lambda>d. key d = key x) ds) x]"
  using assms(2,3)
proof (induction xs arbitrary: ds)
  case Nil
  then show ?case by simp
next
  case (Cons y ys)
  let ?same = "filter (\<lambda>e. key e = key y) ds"
  let ?rest = "filter (\<lambda>e. key e \<noteq> key y) ds"
  let ?y = "combine_all comb ?same y"
  have first: "merge_by key comb (y # ys) ds = ?y # merge_by key comb ys ?rest"
    by (rule merge_by_Cons [where key = key and comb = comb, OF K])
  have ky: "key ?y = key y"
    by (rule key_combine_all [where key = key and comb = comb, OF K]) auto
  have keys: "key ` set (merge_by key comb ys ?rest) = key ` set ys \<union> key ` set ?rest"
    by (rule keys_merge_by [where key = key and comb = comb, OF K])
  show ?case
  proof (cases "key x = key y")
    case True
    have "x = y"
    proof (rule ccontr)
      assume "x \<noteq> y"
      then have "x \<in> set ys" using Cons.prems by simp
      then have "key x \<in> key ` set ys" by (rule imageI)
      then have "key y \<in> key ` set ys" using True by simp
      then show False using Cons.prems(1) by simp
    qed
    have nk: "key y \<notin> key ` set (merge_by key comb ys ?rest)"
      using keys Cons.prems(1) by auto
    have no: "\<not> key z = key y" if z: "z \<in> set (merge_by key comb ys ?rest)" for z
    proof
      assume e: "key z = key y"
      have "key z \<in> key ` set (merge_by key comb ys ?rest)"
        using z by (rule imageI)
      then show False using e nk by simp
    qed
    have fe: "filter (\<lambda>z. key z = key y) (merge_by key comb ys ?rest) = []"
      unfolding filter_empty_conv
    proof (rule ballI)
      fix z
      assume "z \<in> set (merge_by key comb ys ?rest)"
      then show "\<not> key z = key y" by (rule no)
    qed
    have "filter (\<lambda>z. key z = key x) (?y # merge_by key comb ys ?rest) = [?y]"
      using fe ky True by simp
    then show ?thesis
      using first \<open>x = y\<close> True by simp
  next
    case False
    then have x: "x \<in> set ys" using Cons.prems by auto
    have d: "distinct (map key ys)" using Cons.prems by simp
    have "filter (\<lambda>d. key d = key x) ?rest = filter (\<lambda>d. key d = key x) ds"
      using False by (induction ds) auto
    then show ?thesis
      using Cons.IH [OF d x, of ?rest] first ky False by simp
  qed
qed

lemma components_of_all_None:
  "\<forall>d \<in> set ds. r_components d = None \<Longrightarrow> concat (map components_of ds) = []"
  by (induction ds) (auto simp: components_of_def)

subsection \<open>The union written out\<close>

lemma union_items_first_occurrences: "union_items [] ys = rev (remdups (rev ys))"
proof (induction ys rule: rev_induct)
  case Nil
  show ?case by simp
next
  case (snoc y ys)
  show ?case by (simp add: union_items_snoc snoc.IH)
qed

lemma union_items_explicit:
  "union_items xs ys = xs @ rev (remdups (rev (filter (\<lambda>y. y \<notin> set xs) ys)))"
proof -
  have "union_items xs ys = xs @ filter (\<lambda>y. y \<notin> set xs) (union_items [] ys)"
    by (rule union_items_order)
  also have "filter (\<lambda>y. y \<notin> set xs) (union_items [] ys)
           = rev (remdups (rev (filter (\<lambda>y. y \<notin> set xs) ys)))"
    by (simp add: union_items_first_occurrences rev_filter remdups_filter)
  finally show ?thesis .
qed

lemma components_of_combined:
  "components_of (combine_all merge_route ds r)
     = union_items (components_of r) (concat (map components_of ds))"
proof (cases "\<forall>d \<in> set ds. r_components d = None")
  case True
  have e: "concat (map components_of ds) = []"
    by (rule components_of_all_None [OF True])
  show ?thesis
    using True by (simp add: combine_all_route components_merged_char components_of_def e)
next
  case False
  have "components_merged ds (r_components r)
          = Some (union_items (components_of r) (concat (map components_of ds)))"
    using False components_merged_char [of ds "r_components r"]
    by (auto simp: components_of_def)
  then show ?thesis
    by (simp add: combine_all_route components_of_def)
qed

subsection \<open>Idempotence\<close>

lemmas merge_ex_defs = ex_text_def ex_button_def ex_empty_blueprint_def ex_base_blueprint_def
  ex_route_def ex_delta_def empty_component_def ex_two_blueprint_def

text \<open>
  Claim C1: merging the same delta a second time changes nothing, so
  \<open>merge (merge B D) D = merge B D\<close> for every Blueprint and every delta; in particular
  the second application adds no route, component or row. The merge is a function of
  its two arguments: it returns a new Blueprint and leaves the base as it is.
\<close>

theorem merge_idempotent: "merge (merge b d) d = merge b d"
  by (simp add: merge_def merge_routes_idem merge_object_idem merge_scalar_def split: option.splits)

theorem merge_idempotent_witness:
  "merge (merge ex_base_blueprint (ex_delta [ex_text ''hi'', ex_button])) (ex_delta [ex_text ''hi'', ex_button])
     = ex_base_blueprint\<lparr>routes := [ex_route [ex_text ''hi'', ex_button]]\<rparr>"
proof -
  have "merge ex_base_blueprint (ex_delta [ex_text ''hi'', ex_button])
          = ex_base_blueprint\<lparr>routes := [ex_route [ex_text ''hi'', ex_button]]\<rparr>"
    by (simp add: merge_ex_defs merge_def merge_scalar_def merge_object_def merge_route_def
          components_of_def union_items_Cons)
  then show ?thesis
    using merge_idempotent [of ex_base_blueprint "ex_delta [ex_text ''hi'', ex_button]"] by simp
qed

subsection \<open>Routes with the same path\<close>

text \<open>
  Claim C2: let the paths of the Blueprint's routes be pairwise different (the invariant
  of section 3) and let \<open>r\<close> be one of its routes. After the merge with a delta there
  is exactly one route with the path of \<open>r\<close>, and its components are the components of
  \<open>r\<close> in their order, followed by the components of the delta routes of that path
  that \<open>r\<close> does not have, each once, in the order of their first occurrence in the
  delta. A missing \<open>components\<close> member counts as the empty list. The statement is
  written with the list functions of the library only, so that it fixes the result
  independently of the definitions of the merge.
\<close>

theorem same_path_unions_components:
  assumes "distinct (map r_path (routes b))" and "r \<in> set (routes b)"
    and "d_routes dl = Some ds"
  shows "map (\<lambda>x. case r_components x of None \<Rightarrow> [] | Some cs \<Rightarrow> cs)
           (filter (\<lambda>x. r_path x = r_path r) (routes (merge b dl)))
       = (let base = (case r_components r of None \<Rightarrow> [] | Some cs \<Rightarrow> cs);
              added = concat (map (\<lambda>d. case r_components d of None \<Rightarrow> [] | Some cs \<Rightarrow> cs)
                                (filter (\<lambda>d. r_path d = r_path r) ds))
          in [base @ rev (remdups (rev (filter (\<lambda>c. c \<notin> set base) added)))])"
proof -
  let ?same = "filter (\<lambda>d. r_path d = r_path r) ds"
  have K: "\<And>x d. r_path x = r_path d \<Longrightarrow> r_path (merge_route x d) = r_path x"
    by (simp add: merge_route_def)
  have one: "filter (\<lambda>x. r_path x = r_path r) (routes (merge b dl)) = [combine_all merge_route ?same r]"
    using merge_by_filter_key [where key = r_path and comb = merge_route and xs = "routes b"
        and x = r and ds = ds, OF K assms(1,2)] assms(3)
    by (simp add: merge_def)
  have co: "components_of = (\<lambda>x. case r_components x of None \<Rightarrow> [] | Some cs \<Rightarrow> cs)"
    by (rule ext) (simp add: components_of_def)
  have "map components_of (filter (\<lambda>x. r_path x = r_path r) (routes (merge b dl)))
      = [components_of r @ rev (remdups (rev (filter (\<lambda>c. c \<notin> set (components_of r))
            (concat (map components_of ?same)))))]"
    by (simp only: one list.map components_of_combined union_items_explicit)
  then show ?thesis
    unfolding co Let_def .
qed

theorem same_path_unions_components_witness:
  "map (\<lambda>x. case r_components x of None \<Rightarrow> [] | Some cs \<Rightarrow> cs)
     (filter (\<lambda>x. r_path x = Some ''#/'')
        (routes (merge ex_two_blueprint (ex_delta [ex_button, ex_text ''hi'']))))
     = [[ex_text ''hi'', ex_text ''old'', ex_button]]"
proof -
  have a: "distinct (map r_path (routes ex_two_blueprint))"
    by (simp add: merge_ex_defs)
  have b: "ex_route [ex_text ''hi'', ex_text ''old''] \<in> set (routes ex_two_blueprint)"
    by (simp add: merge_ex_defs)
  have c: "d_routes (ex_delta [ex_button, ex_text ''hi'']) = Some [ex_route [ex_button, ex_text ''hi'']]"
    by (simp add: ex_delta_def)
  have p: "r_path (ex_route [ex_text ''hi'', ex_text ''old'']) = Some ''#/''"
    by (simp add: ex_route_def)
  have e: "(let base = (case r_components (ex_route [ex_text ''hi'', ex_text ''old'']) of
                          None \<Rightarrow> [] | Some cs \<Rightarrow> cs);
                added = concat (map (\<lambda>d. case r_components d of None \<Rightarrow> [] | Some cs \<Rightarrow> cs)
                                  (filter (\<lambda>d. r_path d = Some ''#/'')
                                     [ex_route [ex_button, ex_text ''hi'']]))
            in [base @ rev (remdups (rev (filter (\<lambda>c. c \<notin> set base) added)))])
           = [[ex_text ''hi'', ex_text ''old'', ex_button]]"
    by (simp add: merge_ex_defs)
  show ?thesis
    using same_path_unions_components [OF a b c] by (simp only: p e)
qed

section \<open>Properties of the streaming build\<close>

lemma file_events_progress:
  "e \<in> set (file_events f) \<Longrightarrow> \<not> is_preview e \<and> \<not> is_terminal e"
  by (auto simp: file_events_def)

lemma phase_events_progress:
  "e \<in> set (phase_events b p) \<Longrightarrow> \<not> is_preview e \<and> \<not> is_terminal e"
  by (auto simp: phase_events_def dest: file_events_progress split: if_splits)

lemma run_phases_progress:
  "e \<in> set (fst (run_phases b ps)) \<Longrightarrow> \<not> is_preview e \<and> \<not> is_terminal e"
proof (induction ps)
  case Nil
  then show ?case by simp
next
  case (Cons p ps)
  then show ?case
    by (cases "failure b") (auto dest: phase_events_progress split: if_splits prod.splits)
qed

lemma progress_filters:
  "filter is_preview (fst (run_phases b ps)) = [] \<and> filter is_terminal (fst (run_phases b ps)) = []"
  unfolding filter_empty_conv using run_phases_progress by blast

text \<open>
  Claim C8: the messages of a streaming build hold exactly one \<open>preview_ready\<close> and
  exactly one terminal event; the terminal event is the last message, and it is either
  \<open>build_complete\<close> with the two locations or \<open>error\<close> with a message.
\<close>

theorem stream_one_preview_one_terminal:
  "length (filter is_preview (stream b)) = 1
   \<and> length (filter is_terminal (stream b)) = 1
   \<and> is_terminal (last (stream b))
   \<and> (last (stream b) = BuildComplete (httpUrl b) (downloadUrl b)
        \<or> (\<exists>msg. last (stream b) = Error msg))"
proof (cases "snd (run_phases b (plan b))")
  case Ready
  then show ?thesis using progress_filters [of b "plan b"] by (simp add: stream_def)
next
  case (Failed msg)
  then show ?thesis using progress_filters [of b "plan b"] by (simp add: stream_def)
qed

theorem stream_one_preview_one_terminal_witness:
  "length (filter is_preview (stream ex_failed_build)) = 1
   \<and> length (filter is_terminal (stream ex_failed_build)) = 1
   \<and> last (stream ex_failed_build) = Error ''generator timed out''
   \<and> last (stream ex_build)
       = BuildComplete ''http://localhost:8001/apps/app_7/index.html''
           ''http://localhost:8001/apps/app_7.zip''"
  using stream_one_preview_one_terminal [of ex_failed_build]
  by (simp add: stream_def plan_def ex_failed_build_def ex_build_def phase_events_def file_events_def)

end
